theory Spec2Isabelle
  imports Main
begin

section \<open>Python strings\<close>

text \<open>
  A Python \<^verbatim>\<open>str\<close> is a sequence of Unicode code points, and \<^verbatim>\<open>len\<close>, slicing,
  \<^verbatim>\<open>strip\<close> and the \<^verbatim>\<open>re\<close> module all work on code points. A character is therefore
  modelled as its code point (a \<^typ>\<open>nat\<close>) and a string as a list of code points.
  \<open>py\<close> turns an ASCII literal into such a list.
\<close>

type_synonym pychar = nat
type_synonym pystr = "pychar list"

definition py :: "string \<Rightarrow> pystr" where
  "py s = map of_char s"

definition pipe :: pychar where "pipe = 124"       \<comment> \<open>\<^verbatim>\<open>|\<close>\<close>
definition bslash :: pychar where "bslash = 92"    \<comment> \<open>the backslash\<close>
definition newline :: pychar where "newline = 10"  \<comment> \<open>\<^verbatim>\<open>\n\<close>\<close>
definition dash :: pychar where "dash = 45"        \<comment> \<open>\<^verbatim>\<open>-\<close>\<close>
definition colon :: pychar where "colon = 58"      \<comment> \<open>\<^verbatim>\<open>:\<close>\<close>
definition star :: pychar where "star = 42"        \<comment> \<open>\<^verbatim>\<open>*\<close>\<close>
definition underscore :: pychar where "underscore = 95"  \<comment> \<open>\<^verbatim>\<open>_\<close>\<close>
definition lt :: pychar where "lt = 60"            \<comment> \<open>\<^verbatim>\<open><\<close>\<close>
definition gt :: pychar where "gt = 62"            \<comment> \<open>\<^verbatim>\<open>>\<close>\<close>
definition slash :: pychar where "slash = 47"      \<comment> \<open>\<^verbatim>\<open>/\<close>\<close>

text \<open>
  \<^verbatim>\<open>str.isspace\<close> for one character, which is also what \<^verbatim>\<open>str.strip()\<close> removes and
  what \<^verbatim>\<open>\s\<close> matches in a \<^verbatim>\<open>str\<close> pattern: U+0009..U+000D, U+001C..U+0020, U+0085,
  U+00A0, U+1680, U+2000..U+200A, U+2028, U+2029, U+202F, U+205F, U+3000.
\<close>

definition is_space :: "pychar \<Rightarrow> bool" where
  "is_space c \<longleftrightarrow>
     (9 \<le> c \<and> c \<le> 13) \<or> (28 \<le> c \<and> c \<le> 32) \<or> c = 133 \<or> c = 160 \<or> c = 5760 \<or>
     (8192 \<le> c \<and> c \<le> 8202) \<or> c = 8232 \<or> c = 8233 \<or> c = 8239 \<or> c = 8287 \<or> c = 12288"

text \<open>\<^verbatim>\<open>s.strip()\<close>: leading and trailing whitespace removed.\<close>

definition strip :: "pystr \<Rightarrow> pystr" where
  "strip s = rev (dropWhile is_space (rev (dropWhile is_space s)))"

text \<open>\<^verbatim>\<open>s.startswith(p)\<close> and \<^verbatim>\<open>s.endswith(p)\<close>.\<close>

definition startswith :: "pystr \<Rightarrow> pystr \<Rightarrow> bool" where
  "startswith s p \<longleftrightarrow> take (length p) s = p"

definition endswith :: "pystr \<Rightarrow> pystr \<Rightarrow> bool" where
  "endswith s p \<longleftrightarrow> length p \<le> length s \<and> drop (length s - length p) s = p"

text \<open>
  \<^verbatim>\<open>s.replace(old, new)\<close> for a non-empty \<open>old\<close>: the occurrences of \<open>old\<close> are found
  from the left, without overlap, and each is replaced by \<open>new\<close>. (The source only calls it
  with two-character patterns; for an empty \<open>old\<close> the model leaves the text as it is.)
\<close>

fun replace :: "pystr \<Rightarrow> pystr \<Rightarrow> pystr \<Rightarrow> pystr" where
  "replace old new [] = []"
| "replace old new (c # cs) =
     (if old \<noteq> [] \<and> startswith (c # cs) old
      then new @ replace old new (drop (length old - 1) cs)
      else c # replace old new cs)"

text \<open>The slice \<^verbatim>\<open>s[a:-b]\<close> for non-negative literals \<open>a\<close> and \<open>b > 0\<close>.\<close>

definition slice :: "pystr \<Rightarrow> nat \<Rightarrow> nat \<Rightarrow> pystr" where
  "slice s a b = drop a (take (length s - b) s)"

section \<open>Cell unescaper and cell content normalizer\<close>

text \<open>
  \<^verbatim>\<open>return text.replace('\\|', '|').replace('\\\\', '\\')\<close>
\<close>

definition unescape_markdown_cell :: "pystr \<Rightarrow> pystr" where
  "unescape_markdown_cell text =
     replace [bslash, bslash] [bslash] (replace [bslash, pipe] [pipe] text)"

text \<open>
  One attempt of the pattern \<^verbatim>\<open><br\s*/?>\<close> (with \<^verbatim>\<open>re.IGNORECASE\<close>) at the start of a
  string: the rest of the string after the match, or \<open>None\<close>. The pattern is read off
  element by element: \<^verbatim>\<open><\<close>, \<^verbatim>\<open>b\<close> or \<^verbatim>\<open>B\<close>, \<^verbatim>\<open>r\<close> or \<^verbatim>\<open>R\<close>, a greedy run of whitespace, an
  optional \<^verbatim>\<open>/\<close>, and \<^verbatim>\<open>>\<close>. Giving back whitespace or the slash never helps, because
  whitespace, \<^verbatim>\<open>/\<close> and \<^verbatim>\<open>>\<close> are pairwise different characters, so the engine's
  backtracking finds no match that this scan misses.
\<close>

definition match_br :: "pystr \<Rightarrow> pystr option" where
  "match_br s =
     (case s of
        a # b # c # rest \<Rightarrow>
          if a = lt \<and> (b = 98 \<or> b = 66) \<and> (c = 114 \<or> c = 82) then
            (let r1 = dropWhile is_space rest;
                 r2 = (case r1 of [] \<Rightarrow> r1 | d # t \<Rightarrow> if d = slash then t else r1)
             in case r2 of [] \<Rightarrow> None | e # t \<Rightarrow> if e = gt then Some t else None)
          else None
      | _ \<Rightarrow> None)"

text \<open>
  \<^verbatim>\<open>re.sub(r'<br\s*/?>', '\n', text, flags=re.IGNORECASE)\<close>: the text is scanned from the
  left; where the pattern matches, a newline is written and the scan goes on after the
  match, elsewhere the character is copied.
\<close>

function re_sub_br :: "pystr \<Rightarrow> pystr" where
  "re_sub_br [] = []"
| "re_sub_br (c # cs) =
     (case match_br (c # cs) of
        Some rest \<Rightarrow> newline # re_sub_br rest
      | None \<Rightarrow> c # re_sub_br cs)"
  by pat_completeness auto
termination
proof (relation "measure length")
  show "wf (measure length)" by simp
next
  fix c :: pychar and cs rest :: pystr
  assume "match_br (c # cs) = Some rest"
  then obtain x y z w where s: "c # cs = x # y # z # w"
    and r: "(let r1 = dropWhile is_space w;
                 r2 = (case r1 of [] \<Rightarrow> r1 | d # t \<Rightarrow> if d = slash then t else r1)
             in case r2 of [] \<Rightarrow> None | e # t \<Rightarrow> if e = gt then Some t else None) = Some rest"
    by (auto simp: match_br_def split: list.splits if_splits)
  have "length (dropWhile is_space w) \<le> length w"
    by (rule length_dropWhile_le)
  with r have "length rest < length w"
    by (auto simp: Let_def split: list.splits if_splits)
  with s show "(rest, c # cs) \<in> measure length" by auto
qed auto

text \<open>
  \<^verbatim>\<open>preprocess_cell_content(text: Optional[str]) -> str\<close>. \<^verbatim>\<open>str(text)\<close> is the identity
  on a \<^verbatim>\<open>str\<close>.
\<close>

definition preprocess_cell_content :: "pystr option \<Rightarrow> pystr" where
  "preprocess_cell_content text =
     (case text of
        None \<Rightarrow> []
      | Some t \<Rightarrow> strip (re_sub_br t))"

section \<open>Row tokenizer\<close>

text \<open>
  \<^verbatim>\<open>re.split(r'(?<!\\)\|', inner)\<close>: the text is cut at every \<^verbatim>\<open>|\<close> whose preceding
  character (if there is one) is not a backslash; the delimiters are dropped. \<open>cur\<close> is the
  piece being collected and \<open>esc\<close> says that the character just before the current position
  is a backslash.
\<close>

fun re_split_pipe :: "pystr \<Rightarrow> bool \<Rightarrow> pystr \<Rightarrow> pystr list" where
  "re_split_pipe cur esc [] = [cur]"
| "re_split_pipe cur esc (c # cs) =
     (if c = pipe \<and> \<not> esc then cur # re_split_pipe [] False cs
      else re_split_pipe (cur @ [c]) (c = bslash) cs)"

definition re_split :: "pystr \<Rightarrow> pystr list" where
  "re_split inner = re_split_pipe [] False inner"

definition parse_markdown_table_line :: "pystr \<Rightarrow> pystr list option" where
  "parse_markdown_table_line line0 =
     (let line = strip line0 in
      if \<not> startswith line [pipe] \<or> \<not> endswith line [pipe] then None
      else
        let inner = slice line 1 1;
            raw_cells = re_split inner
        in Some (map (\<lambda>cell. preprocess_cell_content (Some (unescape_markdown_cell (strip cell))))
                   raw_cells))"

section \<open>Separator validator\<close>

text \<open>
  \<^verbatim>\<open>re.fullmatch(r'[:\s-]*-+[:\s-]*', col)\<close>: the whole of \<open>col\<close> is a run of characters
  of the class \<^verbatim>\<open>[:\s-]\<close>, then one or more dashes, then again a run of the class. The
  model tries every way of cutting \<open>col\<close> into these three parts.
\<close>

definition sep_class :: "pychar \<Rightarrow> bool" where
  "sep_class c \<longleftrightarrow> c = colon \<or> is_space c \<or> c = dash"

definition cuts :: "pystr \<Rightarrow> (pystr \<times> pystr) list" where
  "cuts s = map (\<lambda>i. (take i s, drop i s)) [0..<Suc (length s)]"

definition fullmatch_sep :: "pystr \<Rightarrow> bool" where
  "fullmatch_sep col =
     list_ex (\<lambda>(a, r). list_all sep_class a \<and>
        list_ex (\<lambda>(b, c). b \<noteq> [] \<and> list_all (\<lambda>x. x = dash) b \<and> list_all sep_class c) (cuts r))
       (cuts col)"

definition is_separator_line :: "pystr \<Rightarrow> bool" where
  "is_separator_line line0 =
     (let line = strip line0 in
      if \<not> startswith line [pipe] \<or> \<not> endswith line [pipe] then False
      else
        let inner = slice line 1 1;
            cols = map strip (re_split inner)
        in if cols = [] then False
           else list_all (\<lambda>col. fullmatch_sep (if col = [] then [dash] else col)) cols)"

section \<open>Formatting annotator\<close>

text \<open>
  \<^verbatim>\<open>Font(bold=True)\<close> and \<^verbatim>\<open>Font(italic=True)\<close>: of the font object only these two
  fields are set by the source, the other one keeps its default \<^verbatim>\<open>False\<close>.
\<close>

record font =
  bold :: bool
  italic :: bool

text \<open>
  \<^verbatim>\<open>apply_cell_formatting(cell, value)\<close>; the argument \<open>cell\<close> is never read.
\<close>

definition apply_cell_formatting :: "'c \<Rightarrow> pystr \<Rightarrow> pystr \<times> font option" where
  "apply_cell_formatting cell v =
     (if startswith v [star, star] \<and> endswith v [star, star] \<and> length v > 4 then
        (strip (slice v 2 2), Some \<lparr>bold = True, italic = False\<rparr>)
      else if ((startswith v [star] \<and> endswith v [star]) \<or>
               (startswith v [underscore] \<and> endswith v [underscore])) \<and> length v > 2 then
        (strip (slice v 1 1), Some \<lparr>bold = False, italic = True\<rparr>)
      else (v, None))"

section \<open>Table extractor\<close>

text \<open>
  What \<^verbatim>\<open>parse_markdown_table\<close> prints, one constructor for each \<^verbatim>\<open>print\<close> of the source,
  with the values the message shows.
\<close>

datatype msg =
    Processing                         \<comment> \<open>\<^verbatim>\<open>Processing Markdown content...\<close>\<close>
  | Found_separator nat                \<comment> \<open>\<^verbatim>\<open>Found separator on line {i+1}\<close>\<close>
  | Found_header nat "pystr list"      \<comment> \<open>\<^verbatim>\<open>Found header on line {i+1}: {headers}\<close>\<close>
  | Warn_width nat nat nat             \<comment> \<open>\<^verbatim>\<open>Warning: Row {i+1} has {n} columns, expected {m}\<close>\<close>
  | Error_data_before_separator nat    \<comment> \<open>\<^verbatim>\<open>Error: Found table data on line {i+1} before separator line\<close>\<close>
  | Table_ended nat                    \<comment> \<open>\<^verbatim>\<open>Table ended after line {i}\<close>\<close>
  | Error_no_header                    \<comment> \<open>\<^verbatim>\<open>Error: No Markdown table header found\<close>\<close>
  | Error_no_separator                 \<comment> \<open>\<^verbatim>\<open>Error: No separator line found after header\<close>\<close>
  | Warn_no_data                       \<comment> \<open>\<^verbatim>\<open>Warning: No data rows found in table\<close>\<close>

text \<open>The local variables of \<^verbatim>\<open>parse_markdown_table\<close>, and the text printed so far.\<close>

record pstate =
  headers :: "pystr list"
  data_rows :: "pystr list list"
  header_found :: bool
  separator_found :: bool
  table_found :: bool
  printed :: "msg list"

definition print :: "msg \<Rightarrow> pstate \<Rightarrow> pstate" where
  "print m st = st\<lparr>printed := printed st @ [m]\<rparr>"

text \<open>
  The value of a call: the tuple \<^verbatim>\<open>(headers, data_rows, success)\<close> it returns, and what it
  has printed.
\<close>

type_synonym presult = "(pystr list \<times> pystr list list \<times> bool) \<times> msg list"

definition return :: "pstate \<Rightarrow> bool \<Rightarrow> presult" where
  "return st success = ((headers st, data_rows st, success), printed st)"

text \<open>
  The loop \<^verbatim>\<open>for i, line in enumerate(lines)\<close>, from index \<open>i\<close> on. \<open>Inl\<close> is the
  \<^verbatim>\<open>return\<close> inside the loop; \<open>Inr\<close> is the state with which the loop is left, at the end of
  the lines or by \<^verbatim>\<open>break\<close>.
\<close>

fun scan :: "nat \<Rightarrow> pystr list \<Rightarrow> pstate \<Rightarrow> presult + pstate" where
  "scan i [] st = Inr st"
| "scan i (line # rest) st =
     (if header_found st \<and> \<not> separator_found st \<and> is_separator_line line then
        scan (i + 1) rest (print (Found_separator (i + 1)) (st\<lparr>separator_found := True\<rparr>))
      else
        case parse_markdown_table_line line of
          Some parsed_cols \<Rightarrow>
            if \<not> header_found st then
              scan (i + 1) rest
                (print (Found_header (i + 1) parsed_cols)
                   (st\<lparr>headers := parsed_cols, header_found := True, table_found := True\<rparr>))
            else if separator_found st then
              (let st1 = (if length parsed_cols \<noteq> length (headers st)
                          then print (Warn_width (i + 1) (length parsed_cols) (length (headers st))) st
                          else st)
               in scan (i + 1) rest (st1\<lparr>data_rows := data_rows st1 @ [parsed_cols]\<rparr>))
            else if header_found st \<and> \<not> separator_found st then
              Inl (return (print (Error_data_before_separator (i + 1)) st) False)
            else scan (i + 1) rest st
        | None \<Rightarrow>
            if table_found st \<and> separator_found st then Inr (print (Table_ended i) st)
            else scan (i + 1) rest st)"

definition init :: pstate where
  "init = \<lparr>headers = [], data_rows = [], header_found = False, separator_found = False,
           table_found = False, printed = [Processing]\<rparr>"

definition parse_markdown_table :: "pystr list \<Rightarrow> presult" where
  "parse_markdown_table lines =
     (case scan 0 lines init of
        Inl r \<Rightarrow> r
      | Inr st \<Rightarrow>
          if \<not> header_found st then return (print Error_no_header st) False
          else if \<not> separator_found st then return (print Error_no_separator st) False
          else return (if data_rows st = [] then print Warn_no_data st else st) True)"

section \<open>Notions of the specification\<close>

text \<open>\<^verbatim>\<open>'|'.join(segments)\<close>: the segments written one after the other with a pipe between.\<close>

fun join_pipe :: "pystr list \<Rightarrow> pystr" where
  "join_pipe [] = []"
| "join_pipe [x] = x"
| "join_pipe (x # y # r) = x @ pipe # join_pipe (y # r)"

text \<open>Every pipe inside the string stands right after a backslash.\<close>

definition pipes_escaped :: "pystr \<Rightarrow> bool" where
  "pipes_escaped seg \<longleftrightarrow> (\<forall>u v. seg = u @ pipe # v \<longrightarrow> u \<noteq> [] \<and> last u = bslash)"

text \<open>
  An HTML line-break tag as the normalizer recognises it: \<^verbatim>\<open><\<close>, the letters \<^verbatim>\<open>br\<close> in either
  case, any whitespace, an optional \<^verbatim>\<open>/\<close>, and \<^verbatim>\<open>>\<close>.
\<close>

definition br_tag :: "pystr \<Rightarrow> bool" where
  "br_tag t =
     (case t of
        a # b # c # rest \<Rightarrow>
          a = lt \<and> (b = 98 \<or> b = 66) \<and> (c = 114 \<or> c = 82) \<and> rest \<noteq> [] \<and> last rest = gt \<and>
          (let m = butlast rest
           in list_all is_space m \<or> (m \<noteq> [] \<and> last m = slash \<and> list_all is_space (butlast m)))
      | _ \<Rightarrow> False)"

text \<open>Some contiguous part of the string is a line-break tag.\<close>

fun contains_br_tag :: "pystr \<Rightarrow> bool" where
  "contains_br_tag [] = False"
| "contains_br_tag (c # cs) =
     (list_ex (\<lambda>(t, r). br_tag t) (cuts (c # cs)) \<or> contains_br_tag cs)"

text \<open>
  The width-mismatch warnings for the data rows \<open>rows\<close>, which stand on the lines after line
  \<open>i\<close> (counted from 1), under a header of \<open>n\<close> cells.
\<close>

fun width_warnings :: "nat \<Rightarrow> nat \<Rightarrow> pystr list list \<Rightarrow> msg list" where
  "width_warnings i n [] = []"
| "width_warnings i n (r # rs) =
     (if length r \<noteq> n then [Warn_width (Suc i) (length r) n] else []) @
     width_warnings (Suc i) n rs"

text \<open>A line that the row tokenizer classifies as "not a row".\<close>

definition not_row :: "pystr \<Rightarrow> bool" where
  "not_row l \<longleftrightarrow> parse_markdown_table_line l = None"

text \<open>The state of the scan right after the header \<open>hc\<close> has been found on line \<open>n\<close>.\<close>

definition after_header :: "nat \<Rightarrow> pystr list \<Rightarrow> pstate" where
  "after_header n hc =
     \<lparr>headers = hc, data_rows = [], header_found = True, separator_found = False,
      table_found = True, printed = [Processing, Found_header n hc]\<rparr>"

text \<open>The two fonts of the formatting annotator.\<close>

definition bold_font :: font where
  "bold_font = \<lparr>bold = True, italic = False\<rparr>"

definition italic_font :: font where
  "italic_font = \<lparr>bold = False, italic = True\<rparr>"

text \<open>The parts of the value of \<open>parse_markdown_table\<close>.\<close>

definition res_headers :: "presult \<Rightarrow> pystr list" where
  "res_headers r = fst (fst r)"

definition res_rows :: "presult \<Rightarrow> pystr list list" where
  "res_rows r = fst (snd (fst r))"

definition success :: "presult \<Rightarrow> bool" where
  "success r = snd (snd (fst r))"

definition res_printed :: "presult \<Rightarrow> msg list" where
  "res_printed r = snd r"

text \<open>The cells of the first pipe-delimited row of the lines; no cells when there is none.\<close>

definition first_row_cells :: "pystr list \<Rightarrow> pystr list" where
  "first_row_cells lines =
     (case dropWhile not_row lines of
        [] \<Rightarrow> []
      | h # _ \<Rightarrow> (case parse_markdown_table_line h of None \<Rightarrow> [] | Some hc \<Rightarrow> hc))"

section \<open>Facts about the string operations\<close>

lemmas chars = pipe_def bslash_def newline_def dash_def colon_def star_def underscore_def
  lt_def gt_def slash_def

lemma startswith_single: "startswith s [c] \<longleftrightarrow> s \<noteq> [] \<and> hd s = c"
  by (cases s) (auto simp: startswith_def)

lemma endswith_single: "endswith s [c] \<longleftrightarrow> s \<noteq> [] \<and> last s = c"
  by (cases s rule: rev_cases) (auto simp: endswith_def)

lemma slice_1_1: "slice s 1 1 = butlast (tl s)"
  by (simp add: slice_def butlast_conv_take drop_Suc drop_take tl_take)

lemma strip_decomp:
  "s = takeWhile is_space s @ strip s @ rev (takeWhile is_space (rev (dropWhile is_space s)))"
proof -
  let ?d = "dropWhile is_space s"
  have "rev ?d = takeWhile is_space (rev ?d) @ dropWhile is_space (rev ?d)" by simp
  then have "?d = rev (dropWhile is_space (rev ?d)) @ rev (takeWhile is_space (rev ?d))"
    by (metis rev_append rev_rev_ident)
  then have "?d = strip s @ rev (takeWhile is_space (rev ?d))"
    by (simp add: strip_def)
  moreover have "s = takeWhile is_space s @ ?d" by simp
  ultimately show ?thesis by metis
qed

lemma strip_hd: "strip s \<noteq> [] \<Longrightarrow> \<not> is_space (hd (strip s))"
proof -
  assume a: "strip s \<noteq> []"
  let ?d = "dropWhile is_space s"
  have ne: "?d \<noteq> []"
  proof
    assume "?d = []"
    then have "strip s = []" unfolding strip_def by (simp only: rev.simps dropWhile.simps)
    with a show False by simp
  qed
  then have h: "\<not> is_space (hd ?d)" by (rule hd_dropWhile)
  have "?d = strip s @ rev (takeWhile is_space (rev ?d))"
    using strip_decomp[of s] by (metis same_append_eq takeWhile_dropWhile_id)
  then have "hd ?d = hd (strip s)" using a by (metis hd_append2)
  with h show ?thesis by simp
qed

lemma strip_last: "strip s \<noteq> [] \<Longrightarrow> \<not> is_space (last (strip s))"
proof -
  assume a: "strip s \<noteq> []"
  let ?e = "dropWhile is_space (rev (dropWhile is_space s))"
  from a have "?e \<noteq> []" by (simp add: strip_def)
  then have "\<not> is_space (hd ?e)" by (rule hd_dropWhile)
  moreover have "last (strip s) = hd ?e" using \<open>?e \<noteq> []\<close> by (simp add: strip_def last_rev)
  ultimately show ?thesis by simp
qed

lemma strip_id: "s = [] \<or> (\<not> is_space (hd s) \<and> \<not> is_space (last s)) \<Longrightarrow> strip s = s"
proof (cases s)
  case Nil
  then show ?thesis by (simp add: strip_def)
next
  case (Cons a as)
  assume "s = [] \<or> (\<not> is_space (hd s) \<and> \<not> is_space (last s))"
  with Cons have h: "\<not> is_space a" and l: "\<not> is_space (last s)" by auto
  from h Cons have d: "dropWhile is_space s = s" by simp
  obtain ys y where ys: "s = ys @ [y]" using Cons by (metis rev_exhaust list.distinct(1))
  with l have "\<not> is_space y" by simp
  with ys have "dropWhile is_space (rev s) = rev s" by simp
  with d show ?thesis by (simp add: strip_def)
qed

lemma set_strip: "set (strip s) \<subseteq> set s"
proof -
  have "set (strip s) \<subseteq> set (dropWhile is_space s)"
    unfolding strip_def using set_dropWhileD by fastforce
  also have "\<dots> \<subseteq> set s" using set_dropWhileD by fastforce
  finally show ?thesis .
qed

lemma replace_absent: "old \<noteq> [] \<Longrightarrow> hd old \<notin> set s \<Longrightarrow> replace old new s = s"
proof (induction s)
  case Nil
  then show ?case by simp
next
  case (Cons c cs)
  then have "\<not> startswith (c # cs) old"
    by (cases old) (auto simp: startswith_def)
  with Cons show ?case by simp
qed

section \<open>Facts about the split on unescaped pipes\<close>

lemma re_split_pipe_nonempty: "re_split_pipe cur esc s \<noteq> []"
  by (induction s arbitrary: cur esc) auto

lemma join_pipe_Cons: "xs \<noteq> [] \<Longrightarrow> join_pipe (x # xs) = x @ pipe # join_pipe xs"
  by (cases xs) auto

lemma join_re_split_pipe: "join_pipe (re_split_pipe cur esc s) = cur @ s"
proof (induction s arbitrary: cur esc)
  case Nil
  then show ?case by simp
next
  case (Cons c cs)
  show ?case
  proof (cases "c = pipe \<and> \<not> esc")
    case True
    then show ?thesis
      using Cons[of "[]" False] by (simp add: join_pipe_Cons re_split_pipe_nonempty)
  next
    case False
    then show ?thesis using Cons[of "cur @ [c]" "c = bslash"] by auto
  qed
qed

lemma pipes_escaped_Nil: "pipes_escaped []"
  by (simp add: pipes_escaped_def)

lemma pipes_escaped_snoc:
  assumes "pipes_escaped cur" and "c = pipe \<longrightarrow> cur \<noteq> [] \<and> last cur = bslash"
  shows "pipes_escaped (cur @ [c])"
  unfolding pipes_escaped_def
proof (intro allI impI)
  fix u v
  assume e: "cur @ [c] = u @ pipe # v"
  show "u \<noteq> [] \<and> last u = bslash"
  proof (cases v rule: rev_cases)
    case Nil
    with e have "cur = u" "c = pipe" by auto
    with assms(2) show ?thesis by simp
  next
    case (snoc v' x)
    with e have "cur = u @ pipe # v'" by auto
    with assms(1) show ?thesis by (simp add: pipes_escaped_def)
  qed
qed

lemma re_split_pipe_escaped:
  assumes "pipes_escaped cur" and "esc \<longleftrightarrow> cur \<noteq> [] \<and> last cur = bslash"
  shows "\<forall>seg \<in> set (re_split_pipe cur esc s). pipes_escaped seg"
  using assms
proof (induction s arbitrary: cur esc)
  case Nil
  then show ?case by simp
next
  case (Cons c cs)
  show ?case
  proof (cases "c = pipe \<and> \<not> esc")
    case True
    then show ?thesis
      using Cons.IH[of "[]" False] Cons.prems by (simp add: pipes_escaped_Nil)
  next
    case False
    have "pipes_escaped (cur @ [c])"
      using Cons.prems False by (intro pipes_escaped_snoc) auto
    then show ?thesis
      using Cons.IH[of "cur @ [c]" "c = bslash"] False by auto
  qed
qed

lemma re_split_pipe_joints:
  assumes "esc \<longleftrightarrow> cur \<noteq> [] \<and> last cur = bslash"
  shows "\<forall>seg \<in> set (butlast (re_split_pipe cur esc s)). seg = [] \<or> last seg \<noteq> bslash"
  using assms
proof (induction s arbitrary: cur esc)
  case Nil
  then show ?case by simp
next
  case (Cons c cs)
  show ?case
  proof (cases "c = pipe \<and> \<not> esc")
    case True
    then show ?thesis
      using Cons.IH[of False "[]"] Cons.prems by (auto simp: re_split_pipe_nonempty)
  next
    case False
    then show ?thesis
      using Cons.IH[of "c = bslash" "cur @ [c]"] by auto
  qed
qed

lemma join_re_split: "join_pipe (re_split s) = s"
  by (simp add: re_split_def join_re_split_pipe)

lemma re_split_nonempty: "re_split s \<noteq> []"
  by (simp add: re_split_def re_split_pipe_nonempty)

lemma re_split_escaped:
  "seg \<in> set (re_split s) \<Longrightarrow> seg = u @ pipe # v \<Longrightarrow> u \<noteq> [] \<and> last u = bslash"
  using re_split_pipe_escaped[of "[]" False s]
  by (simp add: re_split_def pipes_escaped_Nil) (simp add: pipes_escaped_def)

lemma re_split_joints: "seg \<in> set (butlast (re_split s)) \<Longrightarrow> seg = [] \<or> last seg \<noteq> bslash"
  using re_split_pipe_joints[of False "[]" s] by (simp add: re_split_def)

section \<open>Facts about the line-break substitution\<close>

lemma not_space_chars:
  "\<not> is_space lt" "\<not> is_space gt" "\<not> is_space slash" "\<not> is_space dash" "\<not> is_space colon"
  "\<not> is_space pipe" "\<not> is_space bslash"
  by (simp_all add: is_space_def chars)

lemma in_cuts: "(x, y) \<in> set (cuts s) \<longleftrightarrow> x @ y = s"
proof
  assume "(x, y) \<in> set (cuts s)"
  then show "x @ y = s" by (auto simp: cuts_def)
next
  assume e: "x @ y = s"
  then have "x = take (length x) s" "y = drop (length x) s" "length x < Suc (length s)"
    by auto
  then show "(x, y) \<in> set (cuts s)"
    unfolding cuts_def set_map by (metis (no_types, lifting) atLeast0LessThan imageI lessThan_iff set_upt)
qed

lemma dropWhile_space_prefix:
  "list_all is_space w \<Longrightarrow> \<not> is_space x \<Longrightarrow> dropWhile is_space (w @ x # v) = x # v"
  by (induction w) auto

lemma match_br_tag:
  assumes "br_tag t"
  shows "match_br (t @ v) = Some v"
proof -
  from assms obtain a b c rest where t: "t = a # b # c # rest"
    and h: "a = lt" "b = 98 \<or> b = 66" "c = 114 \<or> c = 82" and ne: "rest \<noteq> []" and l: "last rest = gt"
    and m: "list_all is_space (butlast rest) \<or>
            (butlast rest \<noteq> [] \<and> last (butlast rest) = slash \<and> list_all is_space (butlast (butlast rest)))"
    by (auto simp: br_tag_def Let_def split: list.splits)
  define m1 where "m1 = butlast rest"
  from ne l have rest: "rest = m1 @ [gt]" unfolding m1_def by (metis append_butlast_last_id)
  from m show ?thesis
  proof
    assume "list_all is_space (butlast rest)"
    then have "list_all is_space m1" by (simp add: m1_def)
    then have "dropWhile is_space (m1 @ gt # v) = gt # v"
      by (rule dropWhile_space_prefix) (rule not_space_chars)
    then show ?thesis using t h rest by (simp add: match_br_def chars)
  next
    assume a: "butlast rest \<noteq> [] \<and> last (butlast rest) = slash \<and> list_all is_space (butlast (butlast rest))"
    define m2 where "m2 = butlast m1"
    from a have "m1 = m2 @ [slash]" unfolding m1_def m2_def by (metis append_butlast_last_id)
    moreover from a have "list_all is_space m2" by (simp add: m1_def m2_def)
    then have "dropWhile is_space (m2 @ slash # gt # v) = slash # gt # v"
      by (rule dropWhile_space_prefix) (rule not_space_chars)
    ultimately show ?thesis using t h rest by (simp add: match_br_def chars)
  qed
qed

lemma match_br_is_tag:
  assumes "match_br s = Some r"
  shows "\<exists>t. s = t @ r \<and> br_tag t"
proof -
  from assms obtain a b c rest where s: "s = a # b # c # rest"
    and h: "a = lt" "b = 98 \<or> b = 66" "c = 114 \<or> c = 82"
    by (auto simp: match_br_def split: list.splits if_splits)
  let ?w = "takeWhile is_space rest"
  let ?r1 = "dropWhile is_space rest"
  have w: "list_all is_space ?w" by (simp add: list_all_iff) (meson set_takeWhileD)
  have rest: "rest = ?w @ ?r1" by simp
  from assms s h have m: "(case (case ?r1 of [] \<Rightarrow> ?r1 | d # t \<Rightarrow> if d = slash then t else ?r1) of
            [] \<Rightarrow> None | e # t \<Rightarrow> if e = gt then Some t else None) = Some r"
    by (simp add: match_br_def Let_def)
  then have "?r1 = gt # r \<or> ?r1 = slash # gt # r"
    by (auto split: list.splits if_splits)
  then show ?thesis
  proof
    assume "?r1 = gt # r"
    with rest have e: "rest = (?w @ [gt]) @ r" by (metis append_Cons append_Nil append_assoc)
    have "br_tag (a # b # c # ?w @ [gt])" using h w by (simp add: br_tag_def)
    with s e show ?thesis by (metis append_Cons)
  next
    assume "?r1 = slash # gt # r"
    with rest have e: "rest = (?w @ [slash, gt]) @ r" by (metis append_Cons append_Nil append_assoc)
    have "butlast (?w @ [slash, gt]) = ?w @ [slash]" by (simp add: butlast_append)
    then have "br_tag (a # b # c # ?w @ [slash, gt])" using h w by (simp add: br_tag_def)
    with s e show ?thesis by (metis append_Cons)
  qed
qed

declare re_sub_br.simps(2) [simp del]

lemma lt_neq: "lt \<noteq> slash" "lt \<noteq> gt" "lt \<noteq> 98" "lt \<noteq> 66" "lt \<noteq> 114" "lt \<noteq> 82"
  by (simp_all add: chars)

lemma dropWhile_append_lt:
  "dropWhile is_space (rest @ lt # w) =
     (if list_all is_space rest then lt # w else dropWhile is_space rest @ lt # w)"
  by (induction rest) (auto simp: not_space_chars)

lemma match_br_append:
  "match_br ((y # ys) @ lt # w) = map_option (\<lambda>r. r @ lt # w) (match_br (y # ys))"
proof (cases ys)
  case Nil
  then show ?thesis by (simp add: match_br_def lt_neq split: list.splits)
next
  case ys: (Cons b ys')
  show ?thesis
  proof (cases ys')
    case Nil
    with ys show ?thesis by (simp add: match_br_def lt_neq split: list.splits)
  next
    case (Cons c rest)
    with ys have x: "y # ys = y # b # c # rest" by simp
    show ?thesis
    proof (cases "y = lt \<and> (b = 98 \<or> b = 66) \<and> (c = 114 \<or> c = 82)")
      case False
      then show ?thesis unfolding x by (auto simp: match_br_def)
    next
      case True
      show ?thesis
      proof (cases "list_all is_space rest")
        case sp: True
        then have "dropWhile is_space rest = []" by (simp add: list_all_iff)
        with sp True show ?thesis unfolding x
          by (simp add: match_br_def dropWhile_append_lt lt_neq del: dropWhile_eq_Nil_conv)
      next
        case nsp: False
        then obtain d t where r1: "dropWhile is_space rest = d # t"
          by (cases "dropWhile is_space rest") (auto simp: list_all_iff)
        show ?thesis
        proof (cases t)
          case Nil
          with r1 nsp True show ?thesis unfolding x
            by (simp add: match_br_def dropWhile_append_lt lt_neq)
        next
          case (Cons e t')
          with r1 nsp True show ?thesis unfolding x
            by (simp add: match_br_def dropWhile_append_lt lt_neq)
        qed
      qed
    qed
  qed
qed

lemma re_sub_br_append_lt: "re_sub_br (u @ lt # w) = re_sub_br u @ re_sub_br (lt # w)"
proof (induction u rule: re_sub_br.induct)
  case 1
  then show ?case by (simp only: re_sub_br.simps(1) append_Nil)
next
  case (2 c cs)
  show ?case
  proof (cases "match_br (c # cs)")
    case None
    then have m: "match_br (c # (cs @ lt # w)) = None"
      using match_br_append[of c cs w] by simp
    have "re_sub_br ((c # cs) @ lt # w) = c # re_sub_br (cs @ lt # w)"
      using m re_sub_br.simps(2)[of c "cs @ lt # w"] by simp
    also have "\<dots> = c # (re_sub_br cs @ re_sub_br (lt # w))"
      using 2(1)[OF None] by (simp only:)
    also have "\<dots> = re_sub_br (c # cs) @ re_sub_br (lt # w)"
      using None re_sub_br.simps(2)[of c cs] by simp
    finally show ?thesis .
  next
    case (Some rest)
    then have m: "match_br (c # (cs @ lt # w)) = Some (rest @ lt # w)"
      using match_br_append[of c cs w] by simp
    have "re_sub_br ((c # cs) @ lt # w) = newline # re_sub_br (rest @ lt # w)"
      using m re_sub_br.simps(2)[of c "cs @ lt # w"] by simp
    also have "\<dots> = newline # (re_sub_br rest @ re_sub_br (lt # w))"
      using 2(2)[OF Some] by (simp only:)
    also have "\<dots> = re_sub_br (c # cs) @ re_sub_br (lt # w)"
      using Some re_sub_br.simps(2)[of c cs] by simp
    finally show ?thesis .
  qed
qed

lemma br_tag_starts: "br_tag t \<Longrightarrow> \<exists>t'. t = lt # t'"
  by (auto simp: br_tag_def split: list.splits)

lemma re_sub_br_tag_head: "br_tag t \<Longrightarrow> re_sub_br (t @ v) = newline # re_sub_br v"
proof -
  assume b: "br_tag t"
  then obtain t' where t: "t = lt # t'" using br_tag_starts by blast
  from b have "match_br (t @ v) = Some v" by (rule match_br_tag)
  with t show ?thesis using re_sub_br.simps(2)[of lt "t' @ v"] by simp
qed

lemma re_sub_br_tag: "br_tag t \<Longrightarrow> re_sub_br (u @ t @ v) = re_sub_br u @ newline # re_sub_br v"
proof -
  assume b: "br_tag t"
  then obtain t' where t: "t = lt # t'" using br_tag_starts by blast
  have "re_sub_br (u @ t @ v) = re_sub_br u @ re_sub_br (t @ v)"
    using re_sub_br_append_lt[of u "t' @ v"] t by simp
  with b show ?thesis by (simp add: re_sub_br_tag_head)
qed

lemma contains_br_tag_prefix: "br_tag t \<Longrightarrow> contains_br_tag (t @ r)"
proof -
  assume b: "br_tag t"
  then obtain t' where t: "t = lt # t'" using br_tag_starts by blast
  have "(t, r) \<in> set (cuts (t @ r))" by (simp add: in_cuts)
  with b have "list_ex (\<lambda>(t, r). br_tag t) (cuts (t @ r))"
    unfolding list_ex_iff by blast
  with t show ?thesis by simp
qed

lemma re_sub_br_no_tag: "\<not> contains_br_tag s \<Longrightarrow> re_sub_br s = s"
proof (induction s)
  case Nil
  then show ?case by simp
next
  case (Cons c cs)
  have "match_br (c # cs) = None"
  proof (rule ccontr)
    assume "match_br (c # cs) \<noteq> None"
    then obtain r where "match_br (c # cs) = Some r" by auto
    then obtain t where "c # cs = t @ r" "br_tag t" using match_br_is_tag by blast
    then have "contains_br_tag (c # cs)" using contains_br_tag_prefix by metis
    with Cons.prems show False by simp
  qed
  moreover from Cons.prems have "\<not> contains_br_tag cs" by simp
  ultimately show ?case using Cons.IH by (simp add: re_sub_br.simps(2))
qed

section \<open>Facts about the separator pattern and the row test\<close>

lemma fullmatch_sep_iff:
  "fullmatch_sep col \<longleftrightarrow>
     (\<exists>a b c. col = a @ b @ c \<and> list_all sep_class a \<and> b \<noteq> [] \<and> list_all (\<lambda>x. x = dash) b \<and>
        list_all sep_class c)"
proof
  assume "fullmatch_sep col"
  then obtain a r where ar: "(a, r) \<in> set (cuts col)" and a: "list_all sep_class a"
    and ex: "list_ex (\<lambda>(b, c). b \<noteq> [] \<and> list_all (\<lambda>x. x = dash) b \<and> list_all sep_class c) (cuts r)"
    unfolding fullmatch_sep_def list_ex_iff by blast
  from ex obtain b c where bc: "(b, c) \<in> set (cuts r)" and b: "b \<noteq> []" "list_all (\<lambda>x. x = dash) b"
    and c: "list_all sep_class c"
    unfolding list_ex_iff by blast
  from ar bc have "col = a @ b @ c" by (simp add: in_cuts)
  with a b c show "\<exists>a b c. col = a @ b @ c \<and> list_all sep_class a \<and> b \<noteq> [] \<and>
      list_all (\<lambda>x. x = dash) b \<and> list_all sep_class c"
    by blast
next
  assume "\<exists>a b c. col = a @ b @ c \<and> list_all sep_class a \<and> b \<noteq> [] \<and>
      list_all (\<lambda>x. x = dash) b \<and> list_all sep_class c"
  then obtain a b c where e: "col = a @ b @ c" and a: "list_all sep_class a" and b: "b \<noteq> []"
    "list_all (\<lambda>x. x = dash) b" and c: "list_all sep_class c"
    by blast
  have "(b, c) \<in> set (cuts (b @ c))" by (simp add: in_cuts)
  with b c have "list_ex (\<lambda>(b, c). b \<noteq> [] \<and> list_all (\<lambda>x. x = dash) b \<and> list_all sep_class c)
      (cuts (b @ c))"
    unfolding list_ex_iff by blast
  moreover have "(a, b @ c) \<in> set (cuts col)" using e by (simp add: in_cuts)
  ultimately show "fullmatch_sep col"
    using a unfolding fullmatch_sep_def list_ex_iff by blast
qed

lemma fullmatch_sep_simple:
  "fullmatch_sep col \<longleftrightarrow> list_all sep_class col \<and> dash \<in> set col"
proof
  assume "fullmatch_sep col"
  then obtain a b c where e: "col = a @ b @ c" and a: "list_all sep_class a" and b: "b \<noteq> []"
    "list_all (\<lambda>x. x = dash) b" and c: "list_all sep_class c"
    unfolding fullmatch_sep_iff by blast
  from b have "list_all sep_class b" by (simp add: list_all_iff sep_class_def)
  moreover from b have "dash \<in> set b" by (cases b) auto
  ultimately show "list_all sep_class col \<and> dash \<in> set col" using e a c by simp
next
  assume h: "list_all sep_class col \<and> dash \<in> set col"
  then obtain a c where e: "col = a @ dash # c" by (meson split_list)
  with h have "list_all sep_class a" "list_all sep_class c" by simp_all
  moreover have "col = a @ [dash] @ c" using e by simp
  moreover have "[dash] \<noteq> []" "list_all (\<lambda>x. x = dash) [dash]" by simp_all
  ultimately show "fullmatch_sep col"
    unfolding fullmatch_sep_iff by blast
qed

lemma row_test:
  "(\<not> startswith s [pipe] \<or> \<not> endswith s [pipe]) \<longleftrightarrow> \<not> (s \<noteq> [] \<and> hd s = pipe \<and> last s = pipe)"
  by (auto simp: startswith_single endswith_single)

lemma parse_line_None:
  "parse_markdown_table_line l = None \<longleftrightarrow>
     \<not> (strip l \<noteq> [] \<and> hd (strip l) = pipe \<and> last (strip l) = pipe)"
  unfolding parse_markdown_table_line_def Let_def row_test by simp

lemma parse_line_Some:
  assumes "strip l \<noteq> []" "hd (strip l) = pipe" "last (strip l) = pipe"
  shows "parse_markdown_table_line l =
     Some (map (\<lambda>cell. preprocess_cell_content (Some (unescape_markdown_cell (strip cell))))
            (re_split (butlast (tl (strip l)))))"
  using assms unfolding parse_markdown_table_line_def Let_def row_test slice_1_1 by simp

lemma is_separator_line_iff:
  "is_separator_line l \<longleftrightarrow>
     strip l \<noteq> [] \<and> hd (strip l) = pipe \<and> last (strip l) = pipe \<and>
     (\<forall>seg \<in> set (re_split (butlast (tl (strip l)))).
        strip seg = [] \<or> fullmatch_sep (strip seg))"
proof -
  have d: "fullmatch_sep [dash]" by (simp add: fullmatch_sep_simple sep_class_def)
  show ?thesis
    unfolding is_separator_line_def Let_def row_test slice_1_1
    using d by (auto simp: re_split_nonempty list_all_iff)
qed

lemma separator_is_row: "is_separator_line l \<Longrightarrow> parse_markdown_table_line l \<noteq> None"
  by (simp add: is_separator_line_iff parse_line_None)

lemma not_row_not_separator: "not_row l \<Longrightarrow> \<not> is_separator_line l"
  by (metis not_row_def separator_is_row)

section \<open>Facts about the scan over the lines\<close>

lemma scan_skip:
  "\<not> separator_found st \<Longrightarrow> \<forall>l \<in> set pre. not_row l \<Longrightarrow>
     scan i (pre @ rest) st = scan (i + length pre) rest st"
proof (induction pre arbitrary: i)
  case Nil
  then show ?case by simp
next
  case (Cons l pre)
  then have n: "parse_markdown_table_line l = None" and s: "\<not> is_separator_line l"
    using not_row_not_separator[of l] by (simp_all add: not_row_def)
  have "scan i ((l # pre) @ rest) st = scan (Suc i) (pre @ rest) st"
    using n s Cons.prems(1) by simp
  also have "\<dots> = scan (Suc i + length pre) rest st"
    using Cons.IH[of "Suc i"] Cons.prems by simp
  finally show ?case by simp
qed

lemma scan_header:
  "\<not> header_found st \<Longrightarrow> parse_markdown_table_line h = Some cols \<Longrightarrow>
     scan i (h # rest) st =
       scan (Suc i) rest
         (print (Found_header (Suc i) cols)
            (st\<lparr>headers := cols, header_found := True, table_found := True\<rparr>))"
  by simp

lemma scan_separator:
  "header_found st \<Longrightarrow> \<not> separator_found st \<Longrightarrow> is_separator_line s \<Longrightarrow>
     scan i (s # rest) st =
       scan (Suc i) rest (print (Found_separator (Suc i)) (st\<lparr>separator_found := True\<rparr>))"
  by simp

lemma scan_row_before_separator:
  "header_found st \<Longrightarrow> \<not> separator_found st \<Longrightarrow> \<not> is_separator_line r \<Longrightarrow>
   \<not> not_row r \<Longrightarrow>
     scan i (r # post) st = Inl (return (print (Error_data_before_separator (Suc i)) st) False)"
  by (auto simp: not_row_def)

lemma scan_rows:
  "header_found st \<Longrightarrow> separator_found st \<Longrightarrow>
   map parse_markdown_table_line body = map Some rows \<Longrightarrow>
     scan i (body @ post) st =
       scan (i + length body) post
         (st\<lparr>data_rows := data_rows st @ rows,
             printed := printed st @ width_warnings i (length (headers st)) rows\<rparr>)"
proof (induction body arbitrary: i st rows)
  case Nil
  then show ?case by simp
next
  case (Cons l ls)
  from Cons.prems(3) obtain r rs where rows: "rows = r # rs"
    and r: "parse_markdown_table_line l = Some r"
    and rs: "map parse_markdown_table_line ls = map Some rs"
    by (cases rows) auto
  define st1 where "st1 = (if length r \<noteq> length (headers st)
      then print (Warn_width (Suc i) (length r) (length (headers st))) st else st)"
  define st2 where "st2 = st1\<lparr>data_rows := data_rows st1 @ [r]\<rparr>"
  have step: "scan i ((l # ls) @ post) st = scan (Suc i) (ls @ post) st2"
    using Cons.prems(1,2) r by (simp add: st1_def st2_def Let_def)
  have flags: "header_found st2" "separator_found st2" "headers st2 = headers st"
    using Cons.prems(1,2) by (simp_all add: st1_def st2_def print_def)
  have "scan (Suc i) (ls @ post) st2 =
      scan (Suc i + length ls) post
        (st2\<lparr>data_rows := data_rows st2 @ rs,
             printed := printed st2 @ width_warnings (Suc i) (length (headers st2)) rs\<rparr>)"
    using flags rs by (intro Cons.IH) simp_all
  also have "st2\<lparr>data_rows := data_rows st2 @ rs,
             printed := printed st2 @ width_warnings (Suc i) (length (headers st2)) rs\<rparr> =
      st\<lparr>data_rows := data_rows st @ rows,
         printed := printed st @ width_warnings i (length (headers st)) rows\<rparr>"
    by (simp add: st1_def st2_def print_def rows)
  finally show ?case using step by simp
qed

lemma scan_end:
  "table_found st \<Longrightarrow> separator_found st \<Longrightarrow> post = [] \<or> not_row (hd post) \<Longrightarrow>
     scan i post st = Inr (if post = [] then st else print (Table_ended i) st)"
proof (cases post)
  case Nil
  then show ?thesis by simp
next
  case (Cons l ls)
  assume "table_found st" "separator_found st" "post = [] \<or> not_row (hd post)"
  with Cons show ?thesis by (simp add: not_row_def)
qed

section \<open>The four outcomes of the table extractor\<close>

lemma parse_no_header:
  assumes "\<forall>l \<in> set lines. not_row l"
  shows "parse_markdown_table lines = (([], [], False), [Processing, Error_no_header])"
proof -
  have "scan 0 (lines @ []) init = scan (0 + length lines) [] init"
    using assms by (intro scan_skip) (simp_all add: init_def)
  then have "scan 0 lines init = Inr init" by simp
  then show ?thesis
    by (simp add: parse_markdown_table_def init_def return_def print_def)
qed

lemma scan_to_header:
  assumes "\<forall>l \<in> set pre. not_row l" and "parse_markdown_table_line h = Some hc"
  shows "scan 0 (pre @ h # rest) init = scan (Suc (length pre)) rest (after_header (Suc (length pre)) hc)"
proof -
  have "scan 0 (pre @ h # rest) init = scan (0 + length pre) (h # rest) init"
    using assms(1) by (intro scan_skip) (simp_all add: init_def)
  also have "\<dots> = scan (Suc (length pre)) rest (after_header (Suc (length pre)) hc)"
    using assms(2) by (simp add: init_def print_def after_header_def)
  finally show ?thesis .
qed

lemma parse_no_separator:
  assumes "\<forall>l \<in> set pre. not_row l" and "parse_markdown_table_line h = Some hc"
    and "\<forall>l \<in> set rest. not_row l"
  shows "parse_markdown_table (pre @ h # rest) =
     ((hc, [], False), [Processing, Found_header (Suc (length pre)) hc, Error_no_separator])"
proof -
  let ?st = "after_header (Suc (length pre)) hc"
  have "scan (Suc (length pre)) (rest @ []) ?st = scan (Suc (length pre) + length rest) [] ?st"
    using assms(3) by (intro scan_skip) (simp_all add: after_header_def)
  then have "scan 0 (pre @ h # rest) init = Inr ?st"
    using scan_to_header[OF assms(1,2)] by simp
  then show ?thesis
    by (simp add: parse_markdown_table_def after_header_def return_def print_def)
qed

lemma parse_row_before_separator:
  assumes "\<forall>l \<in> set pre. not_row l" and "parse_markdown_table_line h = Some hc"
    and "\<forall>l \<in> set mid. not_row l" and "\<not> not_row r" and "\<not> is_separator_line r"
  shows "parse_markdown_table (pre @ h # mid @ r # post) =
     ((hc, [], False),
      [Processing, Found_header (Suc (length pre)) hc,
       Error_data_before_separator (length pre + length mid + 2)])"
proof -
  let ?st = "after_header (Suc (length pre)) hc"
  have "scan (Suc (length pre)) (mid @ r # post) ?st =
      scan (Suc (length pre) + length mid) (r # post) ?st"
    using assms(3) by (intro scan_skip) (simp_all add: after_header_def)
  also have "\<dots> = Inl (return (print (Error_data_before_separator
      (Suc (Suc (length pre) + length mid))) ?st) False)"
    using assms(4,5) by (intro scan_row_before_separator) (simp_all add: after_header_def)
  finally have "scan 0 (pre @ h # mid @ r # post) init =
      Inl (return (print (Error_data_before_separator (Suc (Suc (length pre) + length mid))) ?st) False)"
    using scan_to_header[OF assms(1,2)] by simp
  then show ?thesis
    by (simp add: parse_markdown_table_def after_header_def return_def print_def)
qed

lemma parse_success:
  assumes "\<forall>l \<in> set pre. not_row l" and "parse_markdown_table_line h = Some hc"
    and "\<forall>l \<in> set mid. not_row l" and "is_separator_line s"
    and "map parse_markdown_table_line body = map Some rows"
    and "post = [] \<or> not_row (hd post)"
  shows "parse_markdown_table (pre @ h # mid @ s # body @ post) =
     ((hc, rows, True),
      [Processing, Found_header (Suc (length pre)) hc,
       Found_separator (length pre + length mid + 2)] @
      width_warnings (length pre + length mid + 2) (length hc) rows @
      (if post = [] then [] else [Table_ended (length pre + length mid + length body + 2)]) @
      (if rows = [] then [Warn_no_data] else []))"
proof -
  let ?n = "length pre + length mid + 2"
  let ?st = "after_header (Suc (length pre)) hc"
  define st2 where "st2 = print (Found_separator ?n) (?st\<lparr>separator_found := True\<rparr>)"
  define st3 where "st3 = st2\<lparr>data_rows := data_rows st2 @ rows,
      printed := printed st2 @ width_warnings ?n (length (headers st2)) rows\<rparr>"
  have f2: "header_found st2" "separator_found st2" "table_found st2" "headers st2 = hc"
    "data_rows st2 = []"
    "printed st2 = [Processing, Found_header (Suc (length pre)) hc, Found_separator ?n]"
    by (simp_all add: st2_def print_def after_header_def)
  have f3: "header_found st3" "separator_found st3" "table_found st3" "headers st3 = hc"
    "data_rows st3 = rows"
    "printed st3 = [Processing, Found_header (Suc (length pre)) hc, Found_separator ?n] @
       width_warnings ?n (length hc) rows"
    using f2 by (simp_all add: st3_def)
  have "scan (Suc (length pre)) (mid @ s # body @ post) ?st =
      scan (Suc (length pre) + length mid) (s # body @ post) ?st"
    using assms(3) by (intro scan_skip) (simp_all add: after_header_def)
  also have "\<dots> = scan ?n (body @ post) st2"
    using assms(4) scan_separator[of ?st s "Suc (length pre) + length mid" "body @ post"]
    by (simp add: after_header_def st2_def)
  also have "\<dots> = scan (?n + length body) post st3"
    unfolding st3_def using f2(1,2) assms(5) by (rule scan_rows)
  also have "\<dots> = Inr (if post = [] then st3 else print (Table_ended (?n + length body)) st3)"
    using f3(3,2) assms(6) by (rule scan_end)
  finally have sc: "scan 0 (pre @ h # mid @ s # body @ post) init =
      Inr (if post = [] then st3 else print (Table_ended (?n + length body)) st3)"
    using scan_to_header[OF assms(1,2)] by simp
  show ?thesis
    unfolding parse_markdown_table_def sc
    using f3 by (simp add: return_def print_def add_ac)
qed

section \<open>Evaluation on concrete inputs\<close>

lemmas ev = py_def chars is_space_def strip_def startswith_def endswith_def slice_def
  unescape_markdown_cell_def match_br_def re_sub_br.simps preprocess_cell_content_def re_split_def
  parse_markdown_table_line_def sep_class_def cuts_def fullmatch_sep_def is_separator_line_def
  apply_cell_formatting_def print_def return_def init_def parse_markdown_table_def

lemma lines_shape:
  "(\<forall>l \<in> set lines. not_row l) \<or>
   (\<exists>pre h rest. lines = pre @ h # rest \<and> (\<forall>l \<in> set pre. not_row l) \<and> \<not> not_row h \<and>
      ((\<forall>l \<in> set rest. not_row l) \<or>
       (\<exists>mid r post. rest = mid @ r # post \<and> (\<forall>l \<in> set mid. not_row l) \<and> \<not> not_row r)))"
proof (cases "\<forall>l \<in> set lines. not_row l")
  case True
  then show ?thesis by simp
next
  case False
  then have "\<exists>l \<in> set lines. \<not> not_row l" by simp
  then obtain pre h rest where l: "lines = pre @ h # rest" and h: "\<not> not_row h"
    and pre: "\<forall>l \<in> set pre. \<not> \<not> not_row l"
    using split_list_first_prop[of lines "\<lambda>l. \<not> not_row l"] by blast
  show ?thesis
  proof (cases "\<forall>l \<in> set rest. not_row l")
    case True
    with l h pre show ?thesis by blast
  next
    case False
    then have "\<exists>l \<in> set rest. \<not> not_row l" by simp
    then obtain mid r post where "rest = mid @ r # post" "\<not> not_row r"
      "\<forall>l \<in> set mid. \<not> \<not> not_row l"
      using split_list_first_prop[of rest "\<lambda>l. \<not> not_row l"] by blast
    with l h pre show ?thesis by blast
  qed
qed

lemma rows_exist:
  "\<forall>l \<in> set body. \<not> not_row l \<Longrightarrow> \<exists>rows. map parse_markdown_table_line body = map Some rows"
proof (induction body)
  case Nil
  then show ?case by simp
next
  case (Cons l ls)
  then obtain rs where "map parse_markdown_table_line ls = map Some rs" by auto
  moreover from Cons.prems obtain r where "parse_markdown_table_line l = Some r"
    by (auto simp: not_row_def)
  ultimately have "map parse_markdown_table_line (l # ls) = map Some (r # rs)" by simp
  then show ?case by blast
qed

lemma body_post:
  "\<exists>body post. rest = body @ post \<and> (\<forall>l \<in> set body. \<not> not_row l) \<and> (post = [] \<or> not_row (hd post))"
proof -
  let ?b = "takeWhile (\<lambda>l. \<not> not_row l) rest"
  let ?p = "dropWhile (\<lambda>l. \<not> not_row l) rest"
  have "rest = ?b @ ?p" by simp
  moreover have "\<forall>l \<in> set ?b. \<not> not_row l" using set_takeWhileD by fastforce
  moreover have "?p = [] \<or> not_row (hd ?p)" using hd_dropWhile[of "\<lambda>l. \<not> not_row l" rest] by blast
  ultimately show ?thesis by blast
qed

text \<open>The result is a success exactly when the first row after the header is a separator.\<close>

lemma parse_success_iff:
  "snd (snd (fst (parse_markdown_table lines))) \<longleftrightarrow>
     (\<exists>pre h mid s post. lines = pre @ h # mid @ s # post \<and> (\<forall>l \<in> set pre. not_row l) \<and>
        \<not> not_row h \<and> (\<forall>l \<in> set mid. not_row l) \<and> is_separator_line s)"
  (is "?L \<longleftrightarrow> ?R")
proof
  assume ?R
  then obtain pre h mid s rest where l: "lines = pre @ h # mid @ s # rest"
    and pre: "\<forall>l \<in> set pre. not_row l" and h: "\<not> not_row h"
    and mid: "\<forall>l \<in> set mid. not_row l" and s: "is_separator_line s"
    by blast
  from h obtain hc where hc: "parse_markdown_table_line h = Some hc" by (auto simp: not_row_def)
  obtain body post where bp: "rest = body @ post" "\<forall>l \<in> set body. \<not> not_row l"
    "post = [] \<or> not_row (hd post)"
    using body_post by blast
  then obtain rows where rows: "map parse_markdown_table_line body = map Some rows"
    using rows_exist by blast
  show ?L
    unfolding l bp(1) parse_success[OF pre hc mid s rows bp(3)] by simp
next
  assume L: ?L
  show ?R
  proof (rule ccontr)
    assume nR: "\<not> ?R"
    from lines_shape[of lines] consider
        (a) "\<forall>l \<in> set lines. not_row l"
      | (b) pre h rest where "lines = pre @ h # rest" "\<forall>l \<in> set pre. not_row l" "\<not> not_row h"
          "\<forall>l \<in> set rest. not_row l"
      | (c) pre h mid r post where "lines = pre @ h # mid @ r # post" "\<forall>l \<in> set pre. not_row l"
          "\<not> not_row h" "\<forall>l \<in> set mid. not_row l" "\<not> not_row r"
      by blast
    then show False
    proof cases
      case a
      then show False using L by (simp add: parse_no_header)
    next
      case b
      from b(3) obtain hc where "parse_markdown_table_line h = Some hc" by (auto simp: not_row_def)
      then show False using L b by (simp add: parse_no_separator)
    next
      case c
      from c(3) obtain hc where hc: "parse_markdown_table_line h = Some hc"
        by (auto simp: not_row_def)
      from nR c have "\<not> is_separator_line r" by blast
      then show False using L c hc by (simp add: parse_row_before_separator)
    qed
  qed
qed

section \<open>Facts about the returned value, the annotator and the tags\<close>

lemmas res = res_headers_def res_rows_def success_def res_printed_def

lemma first_row_cells_none: "\<forall>l \<in> set lines. not_row l \<Longrightarrow> first_row_cells lines = []"
proof -
  assume "\<forall>l \<in> set lines. not_row l"
  then have "dropWhile not_row lines = []" by simp
  then show ?thesis unfolding first_row_cells_def by (simp only: list.case)
qed

lemma first_row_cells_header:
  "\<forall>l \<in> set pre. not_row l \<Longrightarrow> parse_markdown_table_line h = Some hc \<Longrightarrow>
     first_row_cells (pre @ h # rest) = hc"
proof -
  assume pre: "\<forall>l \<in> set pre. not_row l" and h: "parse_markdown_table_line h = Some hc"
  then have "\<not> not_row h" by (simp add: not_row_def)
  with pre have "dropWhile not_row (pre @ h # rest) = h # rest"
    by (simp add: dropWhile_append)
  with h show ?thesis by (simp add: first_row_cells_def)
qed

lemma width_warnings_only: "m \<in> set (width_warnings i n rows) \<Longrightarrow> \<exists>k a. m = Warn_width k a n"
  by (induction rows arbitrary: i) (auto split: if_splits)

lemma width_warnings_nth:
  "j < length rows \<Longrightarrow> length (rows ! j) \<noteq> n \<Longrightarrow>
     Warn_width (i + j + 1) (length (rows ! j)) n \<in> set (width_warnings i n rows)"
proof (induction rows arbitrary: i j)
  case Nil
  then show ?case by simp
next
  case (Cons r rs)
  show ?case
  proof (cases j)
    case 0
    with Cons.prems show ?thesis by simp
  next
    case (Suc j')
    with Cons.prems have "Warn_width (Suc i + j' + 1) (length (rs ! j')) n \<in> set (width_warnings (Suc i) n rs)"
      by (intro Cons.IH) simp_all
    with Suc show ?thesis by simp
  qed
qed

lemma width_warnings_same: "\<forall>r \<in> set rows. length r = n \<Longrightarrow> width_warnings i n rows = []"
  by (induction rows arbitrary: i) auto

text \<open>Once a header has been found, it is what every outcome returns.\<close>

lemma parse_header_result:
  assumes "\<forall>l \<in> set pre. not_row l" and "parse_markdown_table_line h = Some hc"
  shows "\<exists>rows ok msgs. parse_markdown_table (pre @ h # rest) =
           ((hc, rows, ok), Processing # Found_header (Suc (length pre)) hc # msgs) \<and>
           Found_separator (Suc (length pre)) \<notin> set msgs \<and>
           (ok \<or> rows = [])"
proof (cases "\<forall>l \<in> set rest. not_row l")
  case True
  show ?thesis
    by (rule exI[of _ "[]"], rule exI[of _ False], rule exI[of _ "[Error_no_separator]"])
      (simp add: parse_no_separator[OF assms True])
next
  case False
  then have "\<exists>l \<in> set rest. \<not> not_row l" by simp
  then obtain mid r post where rest: "rest = mid @ r # post" and r: "\<not> not_row r"
    and mid': "\<forall>l \<in> set mid. \<not> \<not> not_row l"
    using split_list_first_prop[of rest "\<lambda>l. \<not> not_row l"] by blast
  then have mid: "\<forall>l \<in> set mid. not_row l" by simp
  show ?thesis
  proof (cases "is_separator_line r")
    case False
    show ?thesis
      by (rule exI[of _ "[]"], rule exI[of _ False],
          rule exI[of _ "[Error_data_before_separator (length pre + length mid + 2)]"])
        (simp add: rest parse_row_before_separator[OF assms mid r False])
  next
    case True
    obtain body post' where bp: "post = body @ post'" "\<forall>l \<in> set body. \<not> not_row l"
      "post' = [] \<or> not_row (hd post')"
      using body_post by blast
    then obtain rows where rows: "map parse_markdown_table_line body = map Some rows"
      using rows_exist by blast
    have "Found_separator (Suc (length pre)) \<notin>
        set (width_warnings (length pre + length mid + 2) (length hc) rows)"
      using width_warnings_only by blast
    then show ?thesis
      unfolding rest bp(1) parse_success[OF assms mid True rows bp(3)] by auto
  qed
qed

lemma affix_shape:
  "startswith v a \<and> endswith v b \<and> length v > length a + length b \<longleftrightarrow>
     (\<exists>m. m \<noteq> [] \<and> v = a @ m @ b)"
proof
  assume h: "startswith v a \<and> endswith v b \<and> length v > length a + length b"
  define k where "k = length v - length b"
  define m where "m = drop (length a) (take k v)"
  have ta: "take (length a) v = a" using h by (simp add: startswith_def)
  have db: "drop k v = b" using h by (simp add: endswith_def k_def)
  have lt: "length a + length b < length v" using h by blast
  have le: "length a \<le> k" using lt unfolding k_def by linarith
  have "take k v = take (length a) (take k v) @ m"
    unfolding m_def by (rule append_take_drop_id[symmetric])
  also have "take (length a) (take k v) = a" using le ta by (simp add: min_def)
  finally have "take k v = a @ m" .
  moreover have "v = take k v @ drop k v" by simp
  ultimately have "v = a @ m @ b" using db by simp
  moreover have "length m = length v - length b - length a" by (simp add: m_def k_def)
  then have "m \<noteq> []" using lt by auto
  ultimately show "\<exists>m. m \<noteq> [] \<and> v = a @ m @ b" by blast
next
  assume "\<exists>m. m \<noteq> [] \<and> v = a @ m @ b"
  then obtain m where "m \<noteq> []" "v = a @ m @ b" by blast
  then show "startswith v a \<and> endswith v b \<and> length v > length a + length b"
    by (simp add: startswith_def endswith_def)
qed

lemma slice_middle: "slice (a @ m @ b) (length a) (length b) = m"
  by (simp add: slice_def)

lemma bold_shape:
  "startswith v [star, star] \<and> endswith v [star, star] \<and> length v > 4 \<longleftrightarrow>
     (\<exists>m. m \<noteq> [] \<and> v = [star, star] @ m @ [star, star])"
  using affix_shape[of v "[star, star]" "[star, star]"] by (simp add: eval_nat_numeral)

lemma single_shape:
  "startswith v [c] \<and> endswith v [c] \<and> length v > 2 \<longleftrightarrow> (\<exists>m. m \<noteq> [] \<and> v = [c] @ m @ [c])"
  using affix_shape[of v "[c]" "[c]"] by (simp add: eval_nat_numeral)

lemma slice_2_2: "slice ([a, b] @ m @ [c, d]) 2 2 = m"
  using slice_middle[of "[a, b]" m "[c, d]"] by (simp add: eval_nat_numeral)

lemma slice_1_1_middle: "slice ([a] @ m @ [b]) 1 1 = m"
  using slice_middle[of "[a]" m "[b]"] by simp

lemma br_tag_shape:
  assumes "b \<in> set (py ''bB'')" and "r \<in> set (py ''rR'')" and "list_all is_space w"
    and "sl = [] \<or> sl = [slash]"
  shows "br_tag ([lt, b, r] @ w @ sl @ [gt])"
proof -
  from assms(1,2) have br: "b = 98 \<or> b = 66" "r = 114 \<or> r = 82" by (auto simp: py_def)
  from assms(4) show ?thesis
  proof
    assume "sl = []"
    with br assms(3) show ?thesis by (simp add: br_tag_def)
  next
    assume "sl = [slash]"
    then have "butlast (w @ sl @ [gt]) = w @ [slash]" by (simp add: butlast_append)
    with br assms(3) \<open>sl = [slash]\<close> show ?thesis by (simp add: br_tag_def)
  qed
qed

lemma unescape_no_bslash: "bslash \<notin> set x \<Longrightarrow> unescape_markdown_cell x = x"
  by (simp add: unescape_markdown_cell_def replace_absent)

section \<open>The claims\<close>

text \<open>
  C1. The table extractor reports failure if and only if (a) no line is a pipe-delimited row,
  or (b) there is a first pipe-delimited row (the header) and no line after it is a
  pipe-delimited row, so that no separator is ever recognized, or (c) the first
  pipe-delimited row after the header is not a separator. In case (c) the scan stops at that
  row: the result does not depend on the lines after it, and the error names its line; for
  the lines \<^verbatim>\<open>| H1 | H2 |\<close>, \<^verbatim>\<open>| a | b |\<close>, \<^verbatim>\<open>|---|---|\<close> this is line 2. A header that has no
  separator line anywhere after it gives a failure as well. A header and a separator with no
  data row give a success, with the warning that there are no data rows.
\<close>

theorem C1_failure_iff:
  "(\<not> success (parse_markdown_table lines) \<longleftrightarrow>
      (\<forall>l \<in> set lines. not_row l) \<or>
      (\<exists>pre h rest. lines = pre @ h # rest \<and> (\<forall>l \<in> set pre. not_row l) \<and> \<not> not_row h \<and>
         (\<forall>l \<in> set rest. not_row l)) \<or>
      (\<exists>pre h mid r post. lines = pre @ h # mid @ r # post \<and> (\<forall>l \<in> set pre. not_row l) \<and>
         \<not> not_row h \<and> (\<forall>l \<in> set mid. not_row l) \<and> \<not> not_row r \<and> \<not> is_separator_line r)) \<and>
   ((\<forall>l \<in> set pre. not_row l) \<and> parse_markdown_table_line h = Some hc \<and>
    (\<forall>l \<in> set mid. not_row l) \<and> \<not> not_row r \<and> \<not> is_separator_line r \<longrightarrow>
      parse_markdown_table (pre @ h # mid @ r # post) =
        ((hc, [], False),
         [Processing, Found_header (Suc (length pre)) hc,
          Error_data_before_separator (length pre + length mid + 2)])) \<and>
   parse_markdown_table [py ''| H1 | H2 |'', py ''| a | b |'', py ''|---|---|''] =
     (([py ''H1'', py ''H2''], [], False),
      [Processing, Found_header 1 [py ''H1'', py ''H2''], Error_data_before_separator 2]) \<and>
   ((\<forall>l \<in> set pre. not_row l) \<and> \<not> not_row h \<and> (\<forall>l \<in> set rest. \<not> is_separator_line l) \<longrightarrow>
      \<not> success (parse_markdown_table (pre @ h # rest))) \<and>
   ((\<forall>l \<in> set pre. not_row l) \<and> parse_markdown_table_line h = Some hc \<and>
    (\<forall>l \<in> set mid. not_row l) \<and> is_separator_line s \<and> (post = [] \<or> not_row (hd post)) \<longrightarrow>
      parse_markdown_table (pre @ h # mid @ s # post) =
        ((hc, [], True),
         [Processing, Found_header (Suc (length pre)) hc,
          Found_separator (length pre + length mid + 2)] @
         (if post = [] then [] else [Table_ended (length pre + length mid + 2)]) @
         [Warn_no_data]))"
proof (intro conjI impI)
  let ?A = "\<forall>l \<in> set lines. not_row l"
  let ?B = "\<exists>pre h rest. lines = pre @ h # rest \<and> (\<forall>l \<in> set pre. not_row l) \<and> \<not> not_row h \<and>
         (\<forall>l \<in> set rest. not_row l)"
  let ?C = "\<exists>pre h mid r post. lines = pre @ h # mid @ r # post \<and> (\<forall>l \<in> set pre. not_row l) \<and>
         \<not> not_row h \<and> (\<forall>l \<in> set mid. not_row l) \<and> \<not> not_row r \<and> \<not> is_separator_line r"
  let ?S = "\<exists>pre h mid s post. lines = pre @ h # mid @ s # post \<and> (\<forall>l \<in> set pre. not_row l) \<and>
        \<not> not_row h \<and> (\<forall>l \<in> set mid. not_row l) \<and> is_separator_line s"
  have s: "success (parse_markdown_table lines) \<longleftrightarrow> ?S"
    unfolding success_def by (rule parse_success_iff)
  show "\<not> success (parse_markdown_table lines) \<longleftrightarrow> ?A \<or> ?B \<or> ?C"
  proof
    assume f: "\<not> success (parse_markdown_table lines)"
    with s have nS: "\<not> ?S" by simp
    from lines_shape[of lines] consider
        (a) ?A | (b) ?B
      | (c) pre h mid r post where "lines = pre @ h # mid @ r # post" "\<forall>l \<in> set pre. not_row l"
          "\<not> not_row h" "\<forall>l \<in> set mid. not_row l" "\<not> not_row r"
      by blast
    then show "?A \<or> ?B \<or> ?C"
    proof cases
      case a
      then show ?thesis by simp
    next
      case b
      then show ?thesis by simp
    next
      case c
      with nS have "\<not> is_separator_line r" by blast
      with c have ?C by blast
      then show ?thesis by simp
    qed
  next
    assume "?A \<or> ?B \<or> ?C"
    then consider (a) ?A | (b) ?B | (c) ?C by blast
    then show "\<not> success (parse_markdown_table lines)"
    proof cases
      case a
      then show ?thesis by (simp add: parse_no_header success_def)
    next
      case b
      then obtain pre h rest hc where "lines = pre @ h # rest" "\<forall>l \<in> set pre. not_row l"
        "parse_markdown_table_line h = Some hc" "\<forall>l \<in> set rest. not_row l"
        by (auto simp: not_row_def)
      then show ?thesis by (simp add: parse_no_separator success_def)
    next
      case c
      then obtain pre h mid r post hc where "lines = pre @ h # mid @ r # post"
        "\<forall>l \<in> set pre. not_row l" "parse_markdown_table_line h = Some hc"
        "\<forall>l \<in> set mid. not_row l" "\<not> not_row r" "\<not> is_separator_line r"
        by (auto simp: not_row_def)
      then show ?thesis by (simp add: parse_row_before_separator success_def)
    qed
  qed
next
  assume "(\<forall>l \<in> set pre. not_row l) \<and> parse_markdown_table_line h = Some hc \<and>
    (\<forall>l \<in> set mid. not_row l) \<and> \<not> not_row r \<and> \<not> is_separator_line r"
  then show "parse_markdown_table (pre @ h # mid @ r # post) =
        ((hc, [], False),
         [Processing, Found_header (Suc (length pre)) hc,
          Error_data_before_separator (length pre + length mid + 2)])"
    by (intro parse_row_before_separator) simp_all
next
  show "parse_markdown_table [py ''| H1 | H2 |'', py ''| a | b |'', py ''|---|---|''] =
     (([py ''H1'', py ''H2''], [], False),
      [Processing, Found_header 1 [py ''H1'', py ''H2''], Error_data_before_separator 2])"
    by (simp add: ev)
next
  assume a: "(\<forall>l \<in> set pre. not_row l) \<and> \<not> not_row h \<and> (\<forall>l \<in> set rest. \<not> is_separator_line l)"
  show "\<not> success (parse_markdown_table (pre @ h # rest))"
  proof
    assume "success (parse_markdown_table (pre @ h # rest))"
    then obtain pre' h' mid s post where e: "pre @ h # rest = pre' @ h' # mid @ s # post"
      and p: "\<forall>l \<in> set pre'. not_row l" and h: "\<not> not_row h'" and s: "is_separator_line s"
      unfolding success_def parse_success_iff by blast
    have "pre' = pre \<and> h' = h"
    proof -
      have 1: "takeWhile not_row (pre @ h # rest) = pre" using a by (simp add: takeWhile_tail)
      have 2: "takeWhile not_row (pre' @ h' # mid @ s # post) = pre'"
        using p h by (simp add: takeWhile_tail)
      from 1 2 e have "pre' = pre" by simp
      with e show ?thesis by simp
    qed
    with e have "rest = mid @ s # post" by simp
    with a s show False by simp
  qed
next
  assume a: "(\<forall>l \<in> set pre. not_row l) \<and> parse_markdown_table_line h = Some hc \<and>
    (\<forall>l \<in> set mid. not_row l) \<and> is_separator_line s \<and> (post = [] \<or> not_row (hd post))"
  have "map parse_markdown_table_line [] = map Some []" by simp
  with a have "parse_markdown_table (pre @ h # mid @ s # [] @ post) =
     ((hc, [], True),
      [Processing, Found_header (Suc (length pre)) hc,
       Found_separator (length pre + length mid + 2)] @
      width_warnings (length pre + length mid + 2) (length hc) [] @
      (if post = [] then [] else [Table_ended (length pre + length mid + length ([]::pystr list) + 2)]) @
      (if ([]::pystr list list) = [] then [Warn_no_data] else []))"
    by (intro parse_success) simp_all
  then show "parse_markdown_table (pre @ h # mid @ s # post) =
        ((hc, [], True),
         [Processing, Found_header (Suc (length pre)) hc,
          Found_separator (length pre + length mid + 2)] @
         (if post = [] then [] else [Table_ended (length pre + length mid + 2)]) @
         [Warn_no_data])"
    by simp
qed

theorem C1_failure_iff_witness:
  "parse_markdown_table_line (py ''| H1 | H2 |'') = Some [py ''H1'', py ''H2''] \<and>
   \<not> not_row (py ''| a | b |'') \<and> \<not> is_separator_line (py ''| a | b |'') \<and>
   is_separator_line (py ''|---|---|'') \<and>
   \<not> success (parse_markdown_table [py ''| H1 | H2 |'', py ''| a | b |'', py ''|---|---|'']) \<and>
   parse_markdown_table ([] @ py ''| H1 | H2 |'' # [] @ py ''| a | b |'' # [py ''|---|---|'']) =
     (([py ''H1'', py ''H2''], [], False),
      [Processing, Found_header 1 [py ''H1'', py ''H2''], Error_data_before_separator 2]) \<and>
   parse_markdown_table ([] @ py ''| H1 | H2 |'' # [] @ py ''|---|---|'' # []) =
     (([py ''H1'', py ''H2''], [], True),
      [Processing, Found_header 1 [py ''H1'', py ''H2''], Found_separator 2, Warn_no_data])"
proof -
  have h: "parse_markdown_table_line (py ''| H1 | H2 |'') = Some [py ''H1'', py ''H2'']"
    by (simp add: ev)
  have r: "\<not> not_row (py ''| a | b |'')" "\<not> is_separator_line (py ''| a | b |'')"
    by (simp_all add: not_row_def ev)
  have s: "is_separator_line (py ''|---|---|'')"
    by (simp add: ev)
  have c: "\<exists>pre h mid r post.
      [py ''| H1 | H2 |'', py ''| a | b |'', py ''|---|---|''] = pre @ h # mid @ r # post \<and>
      (\<forall>l \<in> set pre. not_row l) \<and> \<not> not_row h \<and> (\<forall>l \<in> set mid. not_row l) \<and> \<not> not_row r \<and>
      \<not> is_separator_line r"
    using h r
    by (intro exI[of _ "[]"] exI[of _ "py ''| H1 | H2 |''"] exI[of _ "py ''| a | b |''"]
        exI[of _ "[py ''|---|---|'']"]) (simp add: not_row_def)
  from c have 1: "\<not> success (parse_markdown_table [py ''| H1 | H2 |'', py ''| a | b |'', py ''|---|---|''])"
    using C1_failure_iff[where lines = "[py ''| H1 | H2 |'', py ''| a | b |'', py ''|---|---|'']"]
    by blast
  have 2: "parse_markdown_table ([] @ py ''| H1 | H2 |'' # [] @ py ''| a | b |'' # [py ''|---|---|'']) =
     (([py ''H1'', py ''H2''], [], False),
      [Processing, Found_header 1 [py ''H1'', py ''H2''], Error_data_before_separator 2])"
    using h r C1_failure_iff[where pre = "[]" and h = "py ''| H1 | H2 |''"
        and hc = "[py ''H1'', py ''H2'']" and mid = "[]" and r = "py ''| a | b |''"
        and post = "[py ''|---|---|'']"]
    by simp
  have 3: "parse_markdown_table ([] @ py ''| H1 | H2 |'' # [] @ py ''|---|---|'' # []) =
     (([py ''H1'', py ''H2''], [], True),
      [Processing, Found_header 1 [py ''H1'', py ''H2''], Found_separator 2, Warn_no_data])"
    using h s C1_failure_iff[where pre = "[]" and h = "py ''| H1 | H2 |''"
        and hc = "[py ''H1'', py ''H2'']" and mid = "[]" and s = "py ''|---|---|''"
        and post = "[]"]
    by simp
  from h r s 1 2 3 show ?thesis by simp
qed

text \<open>
  C2. For the lines \<^verbatim>\<open>| H1 | H2 |\<close>, \<^verbatim>\<open>|---|---|\<close>, \<^verbatim>\<open>| a | b |\<close>, \<^verbatim>\<open>| c | d |\<close> the table
  extractor succeeds and returns exactly the headers \<^verbatim>\<open>H1\<close>, \<^verbatim>\<open>H2\<close> and the data rows
  \<^verbatim>\<open>a\<close>, \<^verbatim>\<open>b\<close> and \<^verbatim>\<open>c\<close>, \<^verbatim>\<open>d\<close>, in this order. It prints that it found the header on line 1
  and the separator on line 2, and no warning: the dash row is consumed as the separator and
  is not tokenized as data.
\<close>

theorem C2_example_table:
  "parse_markdown_table
     [py ''| H1 | H2 |'', py ''|---|---|'', py ''| a | b |'', py ''| c | d |''] =
   (([py ''H1'', py ''H2''], [[py ''a'', py ''b''], [py ''c'', py ''d'']], True),
    [Processing, Found_header 1 [py ''H1'', py ''H2''], Found_separator 2])"
  by (simp add: ev)

text \<open>
  C3, as the code has it. For every string without a pipe, without a backslash and without
  an HTML line-break tag, the unescaper applied to the normalizer's result is the string
  with the whitespace at its two ends removed. (A line-break tag would be turned into a
  newline by the normalizer, so the tags have to be excluded as well.)
\<close>

theorem C3_unescape_normalize:
  "pipe \<notin> set s \<Longrightarrow> bslash \<notin> set s \<Longrightarrow> \<not> contains_br_tag s \<Longrightarrow>
     unescape_markdown_cell (preprocess_cell_content (Some s)) = strip s"
proof -
  assume b: "bslash \<notin> set s" and t: "\<not> contains_br_tag s"
  from t have "preprocess_cell_content (Some s) = strip s"
    by (simp add: preprocess_cell_content_def re_sub_br_no_tag)
  moreover from b have "bslash \<notin> set (strip s)" using set_strip[of s] by blast
  ultimately show ?thesis by (simp add: unescape_no_bslash)
qed

theorem C3_unescape_normalize_witness:
  "pipe \<notin> set (py '' a <b> c '') \<and> bslash \<notin> set (py '' a <b> c '') \<and>
   \<not> contains_br_tag (py '' a <b> c '') \<and>
   unescape_markdown_cell (preprocess_cell_content (Some (py '' a <b> c ''))) = py ''a <b> c''"
proof -
  have h: "pipe \<notin> set (py '' a <b> c '')" "bslash \<notin> set (py '' a <b> c '')"
    by (simp_all add: py_def chars)
  have n: "\<not> contains_br_tag (py '' a <b> c '')"
    by (simp add: py_def cuts_def br_tag_def chars)
  have s: "strip (py '' a <b> c '') = py ''a <b> c''" by (simp add: ev)
  from h n s show ?thesis
    using C3_unescape_normalize[of "py '' a <b> c ''"] by simp
qed

theorem C3_break_tag_counterexample:
  "pipe \<notin> set (py ''a<br>b'') \<and> bslash \<notin> set (py ''a<br>b'') \<and>
   unescape_markdown_cell (preprocess_cell_content (Some (py ''a<br>b''))) \<noteq> strip (py ''a<br>b'')"
  by (simp add: ev)

text \<open>
  C4, as the code has it. The normalizer maps \<open>None\<close> to the empty string. In a string, a
  line-break tag is \<^verbatim>\<open><\<close>, then \<^verbatim>\<open>br\<close> in either case of each letter, then any whitespace, then
  an optional \<^verbatim>\<open>/\<close>, then \<^verbatim>\<open>>\<close>: whitespace is allowed before the slash, not between the slash
  and the closing bracket. Every such tag is replaced by exactly one newline, the text
  before it and the text after it being treated on their own, and a text without such a tag
  is left as it is. The result is then trimmed: it is what remains of the substituted text
  after whitespace has been taken from its two ends, so newlines in its interior stay.
  \<^verbatim>\<open><br>\<close>, \<^verbatim>\<open><BR/>\<close>, \<^verbatim>\<open><br />\<close> become newlines; \<^verbatim>\<open><br/ >\<close> stays.
\<close>

theorem C4_normalizer:
  "preprocess_cell_content None = [] \<and>
   preprocess_cell_content (Some s) = strip (re_sub_br s) \<and>
   (b \<in> set (py ''bB'') \<and> r \<in> set (py ''rR'') \<and> list_all is_space w \<and> (sl = [] \<or> sl = [slash]) \<longrightarrow>
      re_sub_br (u @ [lt, b, r] @ w @ sl @ [gt] @ v) = re_sub_br u @ [newline] @ re_sub_br v) \<and>
   (\<not> contains_br_tag s \<longrightarrow> re_sub_br s = s) \<and>
   (\<exists>a z. re_sub_br s = a @ preprocess_cell_content (Some s) @ z \<and>
      list_all is_space a \<and> list_all is_space z) \<and>
   (preprocess_cell_content (Some s) \<noteq> [] \<longrightarrow>
      \<not> is_space (hd (preprocess_cell_content (Some s))) \<and>
      \<not> is_space (last (preprocess_cell_content (Some s)))) \<and>
   preprocess_cell_content (Some (py ''a<br>b<BR/>c<br />d<bR  >e'')) =
     py ''a'' @ [newline] @ py ''b'' @ [newline] @ py ''c'' @ [newline] @ py ''d'' @ [newline] @ py ''e'' \<and>
   preprocess_cell_content (Some (py '' a<br>b<br> '')) = py ''a'' @ [newline] @ py ''b'' \<and>
   preprocess_cell_content (Some (py ''a<br/ >b'')) = py ''a<br/ >b''"
proof (intro conjI impI)
  show "preprocess_cell_content None = []" by (simp add: preprocess_cell_content_def)
  show p: "preprocess_cell_content (Some s) = strip (re_sub_br s)"
    by (simp add: preprocess_cell_content_def)
  show "\<exists>a z. re_sub_br s = a @ preprocess_cell_content (Some s) @ z \<and>
      list_all is_space a \<and> list_all is_space z"
  proof -
    let ?t = "re_sub_br s"
    let ?a = "takeWhile is_space ?t"
    let ?z = "rev (takeWhile is_space (rev (dropWhile is_space ?t)))"
    have "?t = ?a @ strip ?t @ ?z" by (rule strip_decomp)
    moreover have "list_all is_space ?a" unfolding list_all_iff using set_takeWhileD by fastforce
    moreover have "list_all is_space ?z" unfolding list_all_iff using set_takeWhileD by fastforce
    ultimately show ?thesis unfolding p by blast
  qed
  show "preprocess_cell_content (Some (py ''a<br>b<BR/>c<br />d<bR  >e'')) =
     py ''a'' @ [newline] @ py ''b'' @ [newline] @ py ''c'' @ [newline] @ py ''d'' @ [newline] @ py ''e''"
    by (simp add: ev)
  show "preprocess_cell_content (Some (py '' a<br>b<br> '')) = py ''a'' @ [newline] @ py ''b''"
    by (simp add: ev)
  show "preprocess_cell_content (Some (py ''a<br/ >b'')) = py ''a<br/ >b''"
    by (simp add: ev)
next
  assume "b \<in> set (py ''bB'') \<and> r \<in> set (py ''rR'') \<and> list_all is_space w \<and> (sl = [] \<or> sl = [slash])"
  then have "br_tag ([lt, b, r] @ w @ sl @ [gt])" by (intro br_tag_shape) simp_all
  then have "re_sub_br (u @ ([lt, b, r] @ w @ sl @ [gt]) @ v) = re_sub_br u @ newline # re_sub_br v"
    by (rule re_sub_br_tag)
  then show "re_sub_br (u @ [lt, b, r] @ w @ sl @ [gt] @ v) = re_sub_br u @ [newline] @ re_sub_br v"
    by simp
next
  assume "\<not> contains_br_tag s"
  then show "re_sub_br s = s" by (rule re_sub_br_no_tag)
next
  assume "preprocess_cell_content (Some s) \<noteq> []"
  then have "strip (re_sub_br s) \<noteq> []" by (simp add: preprocess_cell_content_def)
  then have "\<not> is_space (hd (strip (re_sub_br s)))" "\<not> is_space (last (strip (re_sub_br s)))"
    by (rule strip_hd, rule strip_last)
  then show "\<not> is_space (hd (preprocess_cell_content (Some s)))"
    "\<not> is_space (last (preprocess_cell_content (Some s)))"
    by (simp_all add: preprocess_cell_content_def)
qed

theorem C4_normalizer_witness:
  "(66::nat) \<in> set (py ''bB'') \<and> (114::nat) \<in> set (py ''rR'') \<and> list_all is_space (py ''  '') \<and>
   re_sub_br (py ''x'' @ [lt, 66, 114] @ py ''  '' @ [slash] @ [gt] @ py ''y'') =
     py ''x'' @ [newline] @ py ''y'' \<and>
   \<not> contains_br_tag (py ''a<b>'') \<and> re_sub_br (py ''a<b>'') = py ''a<b>'' \<and>
   preprocess_cell_content (Some (py '' a<b> '')) \<noteq> [] \<and>
   \<not> is_space (hd (preprocess_cell_content (Some (py '' a<b> ''))))"
proof -
  have h: "(66::nat) \<in> set (py ''bB'')" "(114::nat) \<in> set (py ''rR'')"
    "list_all is_space (py ''  '')"
    by (simp_all add: py_def is_space_def)
  have x: "re_sub_br (py ''x'') = py ''x''" "re_sub_br (py ''y'') = py ''y''"
    by (simp_all add: ev)
  have 1: "re_sub_br (py ''x'' @ [lt, 66, 114] @ py ''  '' @ [slash] @ [gt] @ py ''y'') =
     py ''x'' @ [newline] @ py ''y''"
    using h x C4_normalizer[where b = 66 and r = 114 and w = "py ''  ''" and sl = "[slash]"
        and u = "py ''x''" and v = "py ''y''"]
    by simp
  have n: "\<not> contains_br_tag (py ''a<b>'')"
    by (simp add: py_def cuts_def br_tag_def chars)
  then have 2: "re_sub_br (py ''a<b>'') = py ''a<b>''"
    using C4_normalizer[where s = "py ''a<b>''"] by blast
  have ne: "preprocess_cell_content (Some (py '' a<b> '')) \<noteq> []"
    by (simp add: ev)
  then have 3: "\<not> is_space (hd (preprocess_cell_content (Some (py '' a<b> ''))))"
    using C4_normalizer[where s = "py '' a<b> ''"] by blast
  from h 1 n 2 ne 3 show ?thesis by simp
qed

theorem C4_slash_space_counterexample:
  "preprocess_cell_content (Some (py ''a<br/ >b'')) \<noteq> py ''a'' @ [newline] @ py ''b''"
  by (simp add: ev)

text \<open>
  C5. The row tokenizer answers "not a row" exactly when the trimmed line does not both start
  and end with a pipe. Otherwise it takes the text between the outer pipes, splits it at
  the pipes that are not right after a backslash, and gives for each segment the normalizer
  applied to the unescaper applied to the trimmed segment. The split is the one the words
  describe: the segments joined with pipes give the text back, every pipe left inside a
  segment stands right after a backslash, and no segment before a cut ends with a backslash.
  There is always at least one cell. The line \<^verbatim>\<open>| a | b\|c | d |\<close> (with one backslash, as the
  string literal of the specification denotes) gives the cells \<^verbatim>\<open>a\<close>, \<^verbatim>\<open>b|c\<close>, \<^verbatim>\<open>d\<close>, and the
  line \<^verbatim>\<open>||\<close> gives one empty cell.
\<close>

theorem C5_tokenizer:
  "(parse_markdown_table_line l = None \<longleftrightarrow>
      \<not> (strip l \<noteq> [] \<and> hd (strip l) = pipe \<and> last (strip l) = pipe)) \<and>
   (strip l \<noteq> [] \<and> hd (strip l) = pipe \<and> last (strip l) = pipe \<longrightarrow>
      parse_markdown_table_line l =
        Some (map (\<lambda>seg. preprocess_cell_content (Some (unescape_markdown_cell (strip seg))))
               (re_split (butlast (tl (strip l)))))) \<and>
   join_pipe (re_split s) = s \<and>
   (\<forall>seg \<in> set (re_split s). \<forall>u v. seg = u @ pipe # v \<longrightarrow> u \<noteq> [] \<and> last u = bslash) \<and>
   (\<forall>seg \<in> set (butlast (re_split s)). seg = [] \<or> last seg \<noteq> bslash) \<and>
   re_split s \<noteq> [] \<and>
   (parse_markdown_table_line l = Some cells \<longrightarrow> cells \<noteq> []) \<and>
   parse_markdown_table_line (py ''| a | b'' @ [bslash] @ py ''|c | d |'') =
     Some [py ''a'', py ''b|c'', py ''d''] \<and>
   parse_markdown_table_line (py ''||'') = Some [[]]"
proof (intro conjI impI ballI allI)
  show "parse_markdown_table_line l = None \<longleftrightarrow>
      \<not> (strip l \<noteq> [] \<and> hd (strip l) = pipe \<and> last (strip l) = pipe)"
    by (rule parse_line_None)
next
  assume "strip l \<noteq> [] \<and> hd (strip l) = pipe \<and> last (strip l) = pipe"
  then show "parse_markdown_table_line l =
        Some (map (\<lambda>seg. preprocess_cell_content (Some (unescape_markdown_cell (strip seg))))
               (re_split (butlast (tl (strip l)))))"
    by (intro parse_line_Some) simp_all
next
  show "join_pipe (re_split s) = s" by (rule join_re_split)
next
  fix seg u v
  assume "seg \<in> set (re_split s)" "seg = u @ pipe # v"
  then have "u \<noteq> [] \<and> last u = bslash" by (rule re_split_escaped)
  then show "u \<noteq> []" "last u = bslash" by simp_all
next
  fix seg
  assume "seg \<in> set (butlast (re_split s))"
  then show "seg = [] \<or> last seg \<noteq> bslash" by (rule re_split_joints)
next
  show "re_split s \<noteq> []" by (rule re_split_nonempty)
next
  assume c: "parse_markdown_table_line l = Some cells"
  then have "strip l \<noteq> [] \<and> hd (strip l) = pipe \<and> last (strip l) = pipe"
    using parse_line_None[of l] by simp
  then have "parse_markdown_table_line l =
        Some (map (\<lambda>seg. preprocess_cell_content (Some (unescape_markdown_cell (strip seg))))
               (re_split (butlast (tl (strip l)))))"
    by (intro parse_line_Some) simp_all
  with c show "cells \<noteq> []" by (auto simp: re_split_nonempty)
next
  show "parse_markdown_table_line (py ''| a | b'' @ [bslash] @ py ''|c | d |'') =
     Some [py ''a'', py ''b|c'', py ''d'']"
    by (simp add: ev)
next
  show "parse_markdown_table_line (py ''||'') = Some [[]]"
    by (simp add: ev)
qed

theorem C5_tokenizer_witness:
  "strip (py '' | x || y z |  '') \<noteq> [] \<and> hd (strip (py '' | x || y z |  '')) = pipe \<and>
   last (strip (py '' | x || y z |  '')) = pipe \<and>
   parse_markdown_table_line (py '' | x || y z |  '') = Some [py ''x'', [], py ''y z''] \<and>
   py '' x '' \<in> set (re_split (py '' x || y z '')) \<and>
   py '' x '' \<in> set (butlast (re_split (py '' x || y z ''))) \<and>
   last (py '' x '') \<noteq> bslash \<and>
   [py ''x'', [], py ''y z''] \<noteq> []"
proof -
  let ?l = "py '' | x || y z |  ''"
  have s: "strip ?l \<noteq> [] \<and> hd (strip ?l) = pipe \<and> last (strip ?l) = pipe"
    by (simp add: ev)
  have r: "re_split (butlast (tl (strip ?l))) = [py '' x '', [], py '' y z '']"
    by (simp add: ev)
  have c: "map (\<lambda>seg. preprocess_cell_content (Some (unescape_markdown_cell (strip seg))))
      [py '' x '', [], py '' y z ''] = [py ''x'', [], py ''y z'']"
    by (simp add: ev)
  have p: "parse_markdown_table_line ?l = Some [py ''x'', [], py ''y z'']"
    using s r c C5_tokenizer[where l = ?l] by simp
  have r2: "re_split (py '' x || y z '') = [py '' x '', [], py '' y z '']"
    by (simp add: ev)
  then have m: "py '' x '' \<in> set (re_split (py '' x || y z ''))"
    "py '' x '' \<in> set (butlast (re_split (py '' x || y z '')))"
    by simp_all
  have "py '' x '' \<noteq> []" by (simp add: py_def)
  with m(2) have j: "last (py '' x '') \<noteq> bslash"
    using C5_tokenizer[where s = "py '' x || y z ''"] by blast
  have n: "[py ''x'', [], py ''y z''] \<noteq> []"
    using p C5_tokenizer[where l = ?l and cells = "[py ''x'', [], py ''y z'']"] by blast
  from s p m j n show ?thesis by simp
qed

text \<open>
  C6. The separator validator answers true exactly when the trimmed line starts and ends
  with a pipe and every segment of the text between the outer pipes, split at the unescaped
  pipes and trimmed, is empty or matches the pattern: some characters out of colon,
  whitespace and dash, then at least one dash, then again some characters out of colon,
  whitespace and dash. Such a segment is one that consists of colons, whitespace and dashes
  only and has a dash. The three examples of the specification evaluate as stated.
\<close>

theorem C6_separator_iff:
  "(is_separator_line l \<longleftrightarrow>
      strip l \<noteq> [] \<and> hd (strip l) = pipe \<and> last (strip l) = pipe \<and>
      (\<forall>seg \<in> set (re_split (butlast (tl (strip l)))).
         strip seg = [] \<or>
         (\<exists>a b c. strip seg = a @ b @ c \<and> list_all sep_class a \<and> b \<noteq> [] \<and>
            list_all (\<lambda>x. x = dash) b \<and> list_all sep_class c))) \<and>
   ((\<exists>a b c. col = a @ b @ c \<and> list_all sep_class a \<and> b \<noteq> [] \<and>
       list_all (\<lambda>x. x = dash) b \<and> list_all sep_class c) \<longleftrightarrow>
    (\<forall>x \<in> set col. x = colon \<or> is_space x \<or> x = dash) \<and> dash \<in> set col) \<and>
   is_separator_line (py ''|---|:---:|---:|'') \<and>
   \<not> is_separator_line (py ''| a | b |'') \<and>
   is_separator_line (py ''|  |---|'')"
proof (intro conjI)
  show "is_separator_line l \<longleftrightarrow>
      strip l \<noteq> [] \<and> hd (strip l) = pipe \<and> last (strip l) = pipe \<and>
      (\<forall>seg \<in> set (re_split (butlast (tl (strip l)))).
         strip seg = [] \<or>
         (\<exists>a b c. strip seg = a @ b @ c \<and> list_all sep_class a \<and> b \<noteq> [] \<and>
            list_all (\<lambda>x. x = dash) b \<and> list_all sep_class c))"
    unfolding is_separator_line_iff fullmatch_sep_iff by (rule refl)
  show "(\<exists>a b c. col = a @ b @ c \<and> list_all sep_class a \<and> b \<noteq> [] \<and>
       list_all (\<lambda>x. x = dash) b \<and> list_all sep_class c) \<longleftrightarrow>
    (\<forall>x \<in> set col. x = colon \<or> is_space x \<or> x = dash) \<and> dash \<in> set col"
    using fullmatch_sep_iff[of col] fullmatch_sep_simple[of col]
    by (simp add: list_all_iff sep_class_def)
  show "is_separator_line (py ''|---|:---:|---:|'')" by (simp add: ev)
  show "\<not> is_separator_line (py ''| a | b |'')" by (simp add: ev)
  show "is_separator_line (py ''|  |---|'')" by (simp add: ev)
qed

theorem C6_separator_iff_witness:
  "strip (py '' | :-- | | - - | '') \<noteq> [] \<and>
   re_split (butlast (tl (strip (py '' | :-- | | - - | '')))) = [py '' :-- '', py '' '', py '' - - ''] \<and>
   is_separator_line (py '' | :-- | | - - | '') \<and>
   (\<exists>a b c. py '':--'' = a @ b @ c \<and> list_all sep_class a \<and> b \<noteq> [] \<and>
       list_all (\<lambda>x. x = dash) b \<and> list_all sep_class c)"
proof -
  let ?l = "py '' | :-- | | - - | ''"
  have s: "strip ?l \<noteq> []" "hd (strip ?l) = pipe" "last (strip ?l) = pipe"
    by (simp_all add: ev)
  have r: "re_split (butlast (tl (strip ?l))) = [py '' :-- '', py '' '', py '' - - '']"
    by (simp add: ev)
  have c: "(\<forall>x \<in> set (py '':--''). x = colon \<or> is_space x \<or> x = dash) \<and> dash \<in> set (py '':--'')"
    by (simp add: ev)
  then have e: "\<exists>a b c. py '':--'' = a @ b @ c \<and> list_all sep_class a \<and> b \<noteq> [] \<and>
       list_all (\<lambda>x. x = dash) b \<and> list_all sep_class c"
    using C6_separator_iff[where col = "py '':--''"] by blast
  have ss: "strip (py '' :-- '') = py '':--''" "strip (py '' '') = []"
    "strip (py '' - - '') = py ''- -''"
    by (simp_all add: ev)
  have c2: "(\<forall>x \<in> set (py ''- -''). x = colon \<or> is_space x \<or> x = dash) \<and> dash \<in> set (py ''- -'')"
    by (simp add: ev)
  then have e2: "\<exists>a b c. py ''- -'' = a @ b @ c \<and> list_all sep_class a \<and> b \<noteq> [] \<and>
       list_all (\<lambda>x. x = dash) b \<and> list_all sep_class c"
    using C6_separator_iff[where col = "py ''- -''"] by blast
  have "is_separator_line ?l"
    using s r e e2 ss C6_separator_iff[where l = ?l] by simp
  with s r e show ?thesis by simp
qed

text \<open>
  C7. Let the lines be a header with cells \<open>hc\<close>, a separator, and data lines whose
  tokenizations are \<open>rows\<close> (with only non-row lines before the header and between header and
  separator, and the data lines ended by the end of the input or by a non-row line). Then
  the extraction succeeds and returns exactly \<open>rows\<close>, every row with the cells and the width
  it has; a row is neither padded nor cut to the width of the header. For every row whose
  width differs from the header's a width warning is printed, with the row's line number,
  its width and the header's width, and nothing else is printed for a row. For the lines
  \<^verbatim>\<open>| H1 |\<close>, \<^verbatim>\<open>|---|\<close>, \<^verbatim>\<open>| a | b |\<close> the extraction succeeds, warns about line 3 with 2
  cells where 1 was expected, and keeps the row as \<^verbatim>\<open>a\<close>, \<^verbatim>\<open>b\<close>.
\<close>

theorem C7_width_mismatch_kept:
  "((\<forall>l \<in> set pre. not_row l) \<and> parse_markdown_table_line h = Some hc \<and>
    (\<forall>l \<in> set mid. not_row l) \<and> is_separator_line s \<and>
    map parse_markdown_table_line body = map Some rows \<and> (post = [] \<or> not_row (hd post)) \<longrightarrow>
      parse_markdown_table (pre @ h # mid @ s # body @ post) =
        ((hc, rows, True),
         [Processing, Found_header (Suc (length pre)) hc,
          Found_separator (length pre + length mid + 2)] @
         width_warnings (length pre + length mid + 2) (length hc) rows @
         (if post = [] then [] else [Table_ended (length pre + length mid + length body + 2)]) @
         (if rows = [] then [Warn_no_data] else [])) \<and>
      (\<forall>j < length rows. length (rows ! j) \<noteq> length hc \<longrightarrow>
         Warn_width (length pre + length mid + 2 + j + 1) (length (rows ! j)) (length hc)
           \<in> set (res_printed (parse_markdown_table (pre @ h # mid @ s # body @ post))))) \<and>
   (\<forall>m \<in> set (width_warnings i n rows). \<exists>k a. m = Warn_width k a n \<and> a \<noteq> n) \<and>
   parse_markdown_table [py ''| H1 |'', py ''|---|'', py ''| a | b |''] =
     (([py ''H1''], [[py ''a'', py ''b'']], True),
      [Processing, Found_header 1 [py ''H1''], Found_separator 2, Warn_width 3 2 1])"
proof (intro conjI impI)
  assume a: "(\<forall>l \<in> set pre. not_row l) \<and> parse_markdown_table_line h = Some hc \<and>
    (\<forall>l \<in> set mid. not_row l) \<and> is_separator_line s \<and>
    map parse_markdown_table_line body = map Some rows \<and> (post = [] \<or> not_row (hd post))"
  then show p: "parse_markdown_table (pre @ h # mid @ s # body @ post) =
        ((hc, rows, True),
         [Processing, Found_header (Suc (length pre)) hc,
          Found_separator (length pre + length mid + 2)] @
         width_warnings (length pre + length mid + 2) (length hc) rows @
         (if post = [] then [] else [Table_ended (length pre + length mid + length body + 2)]) @
         (if rows = [] then [Warn_no_data] else []))"
    by (intro parse_success) simp_all
  show "\<forall>j < length rows. length (rows ! j) \<noteq> length hc \<longrightarrow>
         Warn_width (length pre + length mid + 2 + j + 1) (length (rows ! j)) (length hc)
           \<in> set (res_printed (parse_markdown_table (pre @ h # mid @ s # body @ post)))"
  proof (intro allI impI)
    fix j
    assume "j < length rows" "length (rows ! j) \<noteq> length hc"
    then have "Warn_width (length pre + length mid + 2 + j + 1) (length (rows ! j)) (length hc)
        \<in> set (width_warnings (length pre + length mid + 2) (length hc) rows)"
      by (rule width_warnings_nth)
    then show "Warn_width (length pre + length mid + 2 + j + 1) (length (rows ! j)) (length hc)
           \<in> set (res_printed (parse_markdown_table (pre @ h # mid @ s # body @ post)))"
      unfolding p by (simp add: res)
  qed
next
  show "\<forall>m \<in> set (width_warnings i n rows). \<exists>k a. m = Warn_width k a n \<and> a \<noteq> n"
    by (induction rows arbitrary: i) (auto split: if_splits)
next
  show "parse_markdown_table [py ''| H1 |'', py ''|---|'', py ''| a | b |''] =
     (([py ''H1''], [[py ''a'', py ''b'']], True),
      [Processing, Found_header 1 [py ''H1''], Found_separator 2, Warn_width 3 2 1])"
    by (simp add: ev)
qed

theorem C7_width_mismatch_kept_witness:
  "parse_markdown_table_line (py ''| H1 | H2 |'') = Some [py ''H1'', py ''H2''] \<and>
   is_separator_line (py ''|---|---|'') \<and>
   map parse_markdown_table_line [py ''| a |'', py ''| b | c |'', py ''| d | e | f |''] =
     map Some [[py ''a''], [py ''b'', py ''c''], [py ''d'', py ''e'', py ''f'']] \<and>
   not_row (hd [py ''end'']) \<and>
   parse_markdown_table
     ([] @ py ''| H1 | H2 |'' # [] @ py ''|---|---|'' #
      [py ''| a |'', py ''| b | c |'', py ''| d | e | f |''] @ [py ''end'']) =
     (([py ''H1'', py ''H2''],
       [[py ''a''], [py ''b'', py ''c''], [py ''d'', py ''e'', py ''f'']], True),
      [Processing, Found_header 1 [py ''H1'', py ''H2''], Found_separator 2,
       Warn_width 3 1 2, Warn_width 5 3 2, Table_ended 5])"
proof -
  have p: "\<forall>l \<in> set ([]::pystr list). not_row l" by simp
  have h: "parse_markdown_table_line (py ''| H1 | H2 |'') = Some [py ''H1'', py ''H2'']"
    by (simp add: ev)
  have s: "is_separator_line (py ''|---|---|'')" by (simp add: ev)
  have b: "map parse_markdown_table_line [py ''| a |'', py ''| b | c |'', py ''| d | e | f |''] =
     map Some [[py ''a''], [py ''b'', py ''c''], [py ''d'', py ''e'', py ''f'']]"
    by (simp add: ev)
  have e: "not_row (hd [py ''end''])" by (simp add: not_row_def ev)
  have "parse_markdown_table
     ([] @ py ''| H1 | H2 |'' # [] @ py ''|---|---|'' #
      [py ''| a |'', py ''| b | c |'', py ''| d | e | f |''] @ [py ''end'']) =
     (([py ''H1'', py ''H2''],
       [[py ''a''], [py ''b'', py ''c''], [py ''d'', py ''e'', py ''f'']], True),
      [Processing, Found_header 1 [py ''H1'', py ''H2''], Found_separator 2,
       Warn_width 3 1 2, Warn_width 5 3 2, Table_ended 5])"
    using p h s b e
      C7_width_mismatch_kept[where pre = "[]" and h = "py ''| H1 | H2 |''"
        and hc = "[py ''H1'', py ''H2'']" and mid = "[]" and s = "py ''|---|---|''"
        and body = "[py ''| a |'', py ''| b | c |'', py ''| d | e | f |'']"
        and rows = "[[py ''a''], [py ''b'', py ''c''], [py ''d'', py ''e'', py ''f'']]"
        and post = "[py ''end'']"]
    by (simp add: py_def)
  with p h s b e show ?thesis by simp
qed

text \<open>
  C8. The formatting annotator returns bold, with the two-character markers removed and the
  rest trimmed, when the text starts and ends with \<^verbatim>\<open>**\<close> and is longer than 4, that is when
  it is \<^verbatim>\<open>**\<close>, a non-empty middle, \<^verbatim>\<open>**\<close>. Otherwise it returns italic, with the one-character
  markers removed and the rest trimmed, when the text starts and ends with \<^verbatim>\<open>*\<close>, or starts
  and ends with \<^verbatim>\<open>_\<close>, and is longer than 2. Otherwise it returns the text unchanged and no
  font. The font returned is never both bold and italic. The four examples of the
  specification evaluate as stated.
\<close>

theorem C8_annotate:
  "(startswith v [star, star] \<and> endswith v [star, star] \<and> length v > 4 \<longrightarrow>
      apply_cell_formatting cell v = (strip (slice v 2 2), Some bold_font)) \<and>
   (\<not> (startswith v [star, star] \<and> endswith v [star, star] \<and> length v > 4) \<and>
    ((startswith v [star] \<and> endswith v [star]) \<or>
     (startswith v [underscore] \<and> endswith v [underscore])) \<and> length v > 2 \<longrightarrow>
      apply_cell_formatting cell v = (strip (slice v 1 1), Some italic_font)) \<and>
   (\<not> (startswith v [star, star] \<and> endswith v [star, star] \<and> length v > 4) \<and>
    \<not> (((startswith v [star] \<and> endswith v [star]) \<or>
        (startswith v [underscore] \<and> endswith v [underscore])) \<and> length v > 2) \<longrightarrow>
      apply_cell_formatting cell v = (v, None)) \<and>
   (m \<noteq> [] \<longrightarrow>
      apply_cell_formatting cell ([star, star] @ m @ [star, star]) = (strip m, Some bold_font)) \<and>
   (m \<noteq> [] \<and> \<not> (startswith m [star] \<and> endswith m [star] \<and> length m > 2) \<longrightarrow>
      apply_cell_formatting cell ([star] @ m @ [star]) = (strip m, Some italic_font)) \<and>
   (m \<noteq> [] \<longrightarrow>
      apply_cell_formatting cell ([underscore] @ m @ [underscore]) = (strip m, Some italic_font)) \<and>
   (snd (apply_cell_formatting cell v) = Some f \<longrightarrow> \<not> (bold f \<and> italic f)) \<and>
   apply_cell_formatting cell (py ''**bold**'') = (py ''bold'', Some bold_font) \<and>
   apply_cell_formatting cell (py ''*it*'') = (py ''it'', Some italic_font) \<and>
   apply_cell_formatting cell (py ''_it_'') = (py ''it'', Some italic_font) \<and>
   apply_cell_formatting cell (py ''plain'') = (py ''plain'', None)"
proof (intro conjI impI)
  assume "startswith v [star, star] \<and> endswith v [star, star] \<and> length v > 4"
  then show "apply_cell_formatting cell v = (strip (slice v 2 2), Some bold_font)"
    by (simp add: apply_cell_formatting_def bold_font_def)
next
  assume "\<not> (startswith v [star, star] \<and> endswith v [star, star] \<and> length v > 4) \<and>
    ((startswith v [star] \<and> endswith v [star]) \<or>
     (startswith v [underscore] \<and> endswith v [underscore])) \<and> length v > 2"
  then show "apply_cell_formatting cell v = (strip (slice v 1 1), Some italic_font)"
    by (simp add: apply_cell_formatting_def italic_font_def)
next
  assume "\<not> (startswith v [star, star] \<and> endswith v [star, star] \<and> length v > 4) \<and>
    \<not> (((startswith v [star] \<and> endswith v [star]) \<or>
        (startswith v [underscore] \<and> endswith v [underscore])) \<and> length v > 2)"
  then show "apply_cell_formatting cell v = (v, None)"
    by (simp add: apply_cell_formatting_def)
next
  assume m: "m \<noteq> []"
  let ?v = "[star, star] @ m @ [star, star]"
  have "startswith ?v [star, star] \<and> endswith ?v [star, star] \<and> length ?v > 4"
    unfolding bold_shape using m by blast
  then show "apply_cell_formatting cell ?v = (strip m, Some bold_font)"
    using slice_2_2[of star star m star star]
    by (simp add: apply_cell_formatting_def bold_font_def)
next
  assume a: "m \<noteq> [] \<and> \<not> (startswith m [star] \<and> endswith m [star] \<and> length m > 2)"
  let ?v = "[star] @ m @ [star]"
  have i: "startswith ?v [star] \<and> endswith ?v [star] \<and> length ?v > 2"
    unfolding single_shape using a by blast
  have nb: "\<not> (startswith ?v [star, star] \<and> endswith ?v [star, star] \<and> length ?v > 4)"
  proof
    assume "startswith ?v [star, star] \<and> endswith ?v [star, star] \<and> length ?v > 4"
    then obtain m' where m': "m' \<noteq> []" "?v = [star, star] @ m' @ [star, star]"
      unfolding bold_shape by blast
    then have "m = [star] @ m' @ [star]" by simp
    with m'(1) have "startswith m [star] \<and> endswith m [star] \<and> length m > 2"
      unfolding single_shape by blast
    with a show False by simp
  qed
  from i nb show "apply_cell_formatting cell ?v = (strip m, Some italic_font)"
    using slice_1_1_middle[of star m star]
    by (simp add: apply_cell_formatting_def italic_font_def)
next
  assume m: "m \<noteq> []"
  let ?v = "[underscore] @ m @ [underscore]"
  have i: "startswith ?v [underscore] \<and> endswith ?v [underscore] \<and> length ?v > 2"
    unfolding single_shape using m by blast
  have nb: "\<not> startswith ?v [star, star]" by (simp add: startswith_def chars)
  from i nb show "apply_cell_formatting cell ?v = (strip m, Some italic_font)"
    using slice_1_1_middle[of underscore m underscore]
    by (simp add: apply_cell_formatting_def italic_font_def)
next
  assume "snd (apply_cell_formatting cell v) = Some f"
  then show "\<not> (bold f \<and> italic f)"
    by (auto simp: apply_cell_formatting_def split: if_splits)
next
  show "apply_cell_formatting cell (py ''**bold**'') = (py ''bold'', Some bold_font)"
    by (simp add: ev bold_font_def)
  show "apply_cell_formatting cell (py ''*it*'') = (py ''it'', Some italic_font)"
    by (simp add: ev italic_font_def)
  show "apply_cell_formatting cell (py ''_it_'') = (py ''it'', Some italic_font)"
    by (simp add: ev italic_font_def)
  show "apply_cell_formatting cell (py ''plain'') = (py ''plain'', None)"
    by (simp add: ev)
qed

theorem C8_annotate_witness:
  "py ''x y'' \<noteq> [] \<and>
   startswith (py ''**a b**'') [star, star] \<and> endswith (py ''**a b**'') [star, star] \<and>
   length (py ''**a b**'') > 4 \<and>
   apply_cell_formatting () (py ''**a b**'') = (py ''a b'', Some bold_font) \<and>
   apply_cell_formatting () (py ''***'') = (py ''*'', Some italic_font) \<and>
   apply_cell_formatting () (py ''**'') = (py ''**'', None) \<and>
   apply_cell_formatting () ([star, star] @ py ''x y'' @ [star, star]) = (py ''x y'', Some bold_font) \<and>
   apply_cell_formatting () ([star] @ py ''x y'' @ [star]) = (py ''x y'', Some italic_font) \<and>
   apply_cell_formatting () ([underscore] @ py ''x y'' @ [underscore]) = (py ''x y'', Some italic_font) \<and>
   \<not> (bold bold_font \<and> italic bold_font)"
proof -
  have m: "py ''x y'' \<noteq> []" by (simp add: py_def)
  have nm: "\<not> (startswith (py ''x y'') [star] \<and> endswith (py ''x y'') [star] \<and> length (py ''x y'') > 2)"
    by (simp add: ev)
  have st: "strip (py ''x y'') = py ''x y''" by (simp add: ev)
  have b: "startswith (py ''**a b**'') [star, star] \<and> endswith (py ''**a b**'') [star, star] \<and>
     length (py ''**a b**'') > 4"
    by (simp add: ev)
  have sl: "strip (slice (py ''**a b**'') 2 2) = py ''a b''" by (simp add: ev)
  have 1: "apply_cell_formatting () (py ''**a b**'') = (py ''a b'', Some bold_font)"
    using b sl C8_annotate[where v = "py ''**a b**''" and cell = "()"] by simp
  have i: "\<not> (startswith (py ''***'') [star, star] \<and> endswith (py ''***'') [star, star] \<and>
        length (py ''***'') > 4) \<and>
      ((startswith (py ''***'') [star] \<and> endswith (py ''***'') [star]) \<or>
       (startswith (py ''***'') [underscore] \<and> endswith (py ''***'') [underscore])) \<and>
      length (py ''***'') > 2"
    by (simp add: ev)
  have sl2: "strip (slice (py ''***'') 1 1) = py ''*''" by (simp add: ev)
  have 2: "apply_cell_formatting () (py ''***'') = (py ''*'', Some italic_font)"
    using i sl2 C8_annotate[where v = "py ''***''" and cell = "()"] by simp
  have n: "\<not> (startswith (py ''**'') [star, star] \<and> endswith (py ''**'') [star, star] \<and>
        length (py ''**'') > 4) \<and>
      \<not> (((startswith (py ''**'') [star] \<and> endswith (py ''**'') [star]) \<or>
        (startswith (py ''**'') [underscore] \<and> endswith (py ''**'') [underscore])) \<and>
        length (py ''**'') > 2)"
    by (simp add: ev)
  have 3: "apply_cell_formatting () (py ''**'') = (py ''**'', None)"
    using n C8_annotate[where v = "py ''**''" and cell = "()"] by simp
  have 4: "apply_cell_formatting () ([star, star] @ py ''x y'' @ [star, star]) = (py ''x y'', Some bold_font)"
      "apply_cell_formatting () ([star] @ py ''x y'' @ [star]) = (py ''x y'', Some italic_font)"
      "apply_cell_formatting () ([underscore] @ py ''x y'' @ [underscore]) = (py ''x y'', Some italic_font)"
    using m nm st C8_annotate[where m = "py ''x y''" and cell = "()"] by simp_all
  have 5: "\<not> (bold bold_font \<and> italic bold_font)"
    using 1 C8_annotate[where v = "py ''**a b**''" and cell = "()" and f = bold_font] by simp
  from m b 1 2 3 4 5 show ?thesis by simp
qed

text \<open>
  C9. The table extractor is a total function: on every input it returns a value, also when
  it fails. When it fails, the value holds what the scan had collected: the header is the
  tokenization of the first pipe-delimited row (no cells when there is no such row) and
  there are no data rows, because rows are only collected after a separator. In particular,
  when a second pipe-delimited row comes before any separator, the header already recorded
  is returned, with the success flag false.
\<close>

theorem C9_failure_keeps_state:
  "(\<not> success (parse_markdown_table lines) \<longrightarrow>
      res_headers (parse_markdown_table lines) = first_row_cells lines \<and>
      res_rows (parse_markdown_table lines) = []) \<and>
   ((\<forall>l \<in> set pre. not_row l) \<and> parse_markdown_table_line h = Some hc \<and>
    (\<forall>l \<in> set mid. not_row l) \<and> \<not> not_row r \<and> \<not> is_separator_line r \<longrightarrow>
      res_headers (parse_markdown_table (pre @ h # mid @ r # post)) = hc \<and>
      res_rows (parse_markdown_table (pre @ h # mid @ r # post)) = [] \<and>
      \<not> success (parse_markdown_table (pre @ h # mid @ r # post)) \<and>
      Error_data_before_separator (length pre + length mid + 2)
        \<in> set (res_printed (parse_markdown_table (pre @ h # mid @ r # post))))"
proof (intro conjI impI)
  assume f: "\<not> success (parse_markdown_table lines)"
  show "res_headers (parse_markdown_table lines) = first_row_cells lines"
  proof (cases "\<forall>l \<in> set lines. not_row l")
    case True
    then show ?thesis by (simp add: parse_no_header first_row_cells_none res)
  next
    case False
    then have "\<exists>l \<in> set lines. \<not> not_row l" by simp
    then obtain pre h rest where l: "lines = pre @ h # rest" and h: "\<not> not_row h"
      and "\<forall>l \<in> set pre. \<not> \<not> not_row l"
      using split_list_first_prop[of lines "\<lambda>l. \<not> not_row l"] by blast
    then have pre: "\<forall>l \<in> set pre. not_row l" by simp
    from h obtain hc where hc: "parse_markdown_table_line h = Some hc" by (auto simp: not_row_def)
    from parse_header_result[OF pre hc, of rest] l
    have "res_headers (parse_markdown_table lines) = hc" by (auto simp: res)
    with l pre hc show ?thesis by (simp add: first_row_cells_header)
  qed
  show "res_rows (parse_markdown_table lines) = []"
  proof (cases "\<forall>l \<in> set lines. not_row l")
    case True
    then show ?thesis by (simp add: parse_no_header res)
  next
    case False
    then have "\<exists>l \<in> set lines. \<not> not_row l" by simp
    then obtain pre h rest where l: "lines = pre @ h # rest" and h: "\<not> not_row h"
      and "\<forall>l \<in> set pre. \<not> \<not> not_row l"
      using split_list_first_prop[of lines "\<lambda>l. \<not> not_row l"] by blast
    then have pre: "\<forall>l \<in> set pre. not_row l" by simp
    from h obtain hc where hc: "parse_markdown_table_line h = Some hc" by (auto simp: not_row_def)
    from parse_header_result[OF pre hc, of rest] l f
    show ?thesis by (auto simp: res)
  qed
next
  assume a: "(\<forall>l \<in> set pre. not_row l) \<and> parse_markdown_table_line h = Some hc \<and>
    (\<forall>l \<in> set mid. not_row l) \<and> \<not> not_row r \<and> \<not> is_separator_line r"
  then have p: "parse_markdown_table (pre @ h # mid @ r # post) =
     ((hc, [], False),
      [Processing, Found_header (Suc (length pre)) hc,
       Error_data_before_separator (length pre + length mid + 2)])"
    by (intro parse_row_before_separator) simp_all
  show "res_headers (parse_markdown_table (pre @ h # mid @ r # post)) = hc"
    unfolding p by (simp add: res)
  show "res_rows (parse_markdown_table (pre @ h # mid @ r # post)) = []"
    unfolding p by (simp add: res)
  show "\<not> success (parse_markdown_table (pre @ h # mid @ r # post))"
    unfolding p by (simp add: res)
  show "Error_data_before_separator (length pre + length mid + 2)
        \<in> set (res_printed (parse_markdown_table (pre @ h # mid @ r # post)))"
    unfolding p by (simp add: res)
qed

theorem C9_failure_keeps_state_witness:
  "\<not> success (parse_markdown_table [py ''text'', py ''| H1 | H2 |'', py ''| a | b |'']) \<and>
   first_row_cells [py ''text'', py ''| H1 | H2 |'', py ''| a | b |''] = [py ''H1'', py ''H2''] \<and>
   res_headers (parse_markdown_table [py ''text'', py ''| H1 | H2 |'', py ''| a | b |'']) =
     [py ''H1'', py ''H2''] \<and>
   res_rows (parse_markdown_table [py ''text'', py ''| H1 | H2 |'', py ''| a | b |'']) = [] \<and>
   Error_data_before_separator 3
     \<in> set (res_printed (parse_markdown_table ([py ''text''] @ py ''| H1 | H2 |'' # [] @ py ''| a | b |'' # [])))"
proof -
  let ?lines = "[py ''text'', py ''| H1 | H2 |'', py ''| a | b |'']"
  have f: "\<not> success (parse_markdown_table ?lines)"
    by (simp add: ev success_def)
  have c: "first_row_cells ?lines = [py ''H1'', py ''H2'']"
    by (simp add: first_row_cells_def not_row_def ev)
  have t: "\<forall>l \<in> set [py ''text'']. not_row l" by (simp add: not_row_def ev)
  have h: "parse_markdown_table_line (py ''| H1 | H2 |'') = Some [py ''H1'', py ''H2'']"
    by (simp add: ev)
  have r: "\<not> not_row (py ''| a | b |'')" "\<not> is_separator_line (py ''| a | b |'')"
    by (simp_all add: not_row_def ev)
  from f c have 1: "res_headers (parse_markdown_table ?lines) = [py ''H1'', py ''H2'']"
      "res_rows (parse_markdown_table ?lines) = []"
    using C9_failure_keeps_state[where lines = ?lines] by simp_all
  have 2: "Error_data_before_separator 3
     \<in> set (res_printed (parse_markdown_table ([py ''text''] @ py ''| H1 | H2 |'' # [] @ py ''| a | b |'' # [])))"
    using t h r C9_failure_keeps_state[where lines = ?lines and pre = "[py ''text'']"
        and h = "py ''| H1 | H2 |''" and hc = "[py ''H1'', py ''H2'']" and mid = "[]"
        and r = "py ''| a | b |''" and post = "[]"]
    by (simp add: numeral_3_eq_3)
  from f c 1 2 show ?thesis by simp
qed

text \<open>
  C10. The separator test is only made once a header has been recorded. So when the first
  pipe-delimited line of the input is itself shaped like a separator, it is tokenized as an
  ordinary row and becomes the header: the result's header is its tokenization, the header
  is reported on its line and no separator is reported there. For the lines \<^verbatim>\<open>|---|\<close>,
  \<^verbatim>\<open>|---|\<close>, \<^verbatim>\<open>| a |\<close> the extraction succeeds with the header \<^verbatim>\<open>---\<close> and the one data row
  \<^verbatim>\<open>a\<close>.
\<close>

theorem C10_separator_shaped_header:
  "((\<forall>l \<in> set pre. not_row l) \<and> is_separator_line h \<longrightarrow>
      (\<exists>hc. parse_markdown_table_line h = Some hc \<and>
         res_headers (parse_markdown_table (pre @ h # rest)) = hc \<and>
         take 2 (res_printed (parse_markdown_table (pre @ h # rest))) =
           [Processing, Found_header (Suc (length pre)) hc] \<and>
         Found_separator (Suc (length pre))
           \<notin> set (res_printed (parse_markdown_table (pre @ h # rest))))) \<and>
   parse_markdown_table [py ''|---|'', py ''|---|'', py ''| a |''] =
     (([py ''---''], [[py ''a'']], True),
      [Processing, Found_header 1 [py ''---''], Found_separator 2])"
proof (intro conjI impI)
  assume a: "(\<forall>l \<in> set pre. not_row l) \<and> is_separator_line h"
  then obtain hc where hc: "parse_markdown_table_line h = Some hc"
    using separator_is_row[of h] by auto
  from a have pre: "\<forall>l \<in> set pre. not_row l" by simp
  from parse_header_result[OF pre hc, of rest] obtain rows ok msgs where
    p: "parse_markdown_table (pre @ h # rest) =
           ((hc, rows, ok), Processing # Found_header (Suc (length pre)) hc # msgs)"
    and n: "Found_separator (Suc (length pre)) \<notin> set msgs"
    by blast
  have "res_headers (parse_markdown_table (pre @ h # rest)) = hc"
    unfolding p by (simp add: res)
  moreover have "take 2 (res_printed (parse_markdown_table (pre @ h # rest))) =
           [Processing, Found_header (Suc (length pre)) hc]"
    unfolding p by (simp add: res)
  moreover have "Found_separator (Suc (length pre))
           \<notin> set (res_printed (parse_markdown_table (pre @ h # rest)))"
    unfolding p using n by (simp add: res)
  ultimately show "\<exists>hc. parse_markdown_table_line h = Some hc \<and>
         res_headers (parse_markdown_table (pre @ h # rest)) = hc \<and>
         take 2 (res_printed (parse_markdown_table (pre @ h # rest))) =
           [Processing, Found_header (Suc (length pre)) hc] \<and>
         Found_separator (Suc (length pre))
           \<notin> set (res_printed (parse_markdown_table (pre @ h # rest)))"
    using hc by blast
next
  show "parse_markdown_table [py ''|---|'', py ''|---|'', py ''| a |''] =
     (([py ''---''], [[py ''a'']], True),
      [Processing, Found_header 1 [py ''---''], Found_separator 2])"
    by (simp add: ev)
qed

theorem C10_separator_shaped_header_witness:
  "not_row (py ''text'') \<and> is_separator_line (py ''|:--|--:|'') \<and>
   res_headers (parse_markdown_table ([py ''text''] @ py ''|:--|--:|'' # [py ''| a | b |''])) =
     [py '':--'', py ''--:''] \<and>
   Found_separator 2
     \<notin> set (res_printed (parse_markdown_table ([py ''text''] @ py ''|:--|--:|'' # [py ''| a | b |''])))"
proof -
  have t: "\<forall>l \<in> set [py ''text'']. not_row l" by (simp add: not_row_def ev)
  have s: "is_separator_line (py ''|:--|--:|'')" by (simp add: ev)
  have h: "parse_markdown_table_line (py ''|:--|--:|'') = Some [py '':--'', py ''--:'']"
    by (simp add: ev)
  from t s h show ?thesis
    using C10_separator_shaped_header[where pre = "[py ''text'']" and h = "py ''|:--|--:|''"
        and rest = "[py ''| a | b |'']"]
    by (simp add: numeral_2_eq_2)
qed

end
